theory Spec2Isabelle
  imports Complex_Main "HOL-Library.List_Lexorder" "HOL-Library.Word"
begin

section \<open>Floating-point numbers\<close>

text \<open>
  The program computes with NumPy and PyTorch floating-point arrays. A stored value is
  modelled by the real number it denotes, or by an infinity or NaN: a true division by
  zero gives an infinity or NaN (it does not raise). The two signed zeros are one value.
\<close>

datatype np_float = Finite real | PosInf | NegInf | NaN

fun np_add :: "np_float \<Rightarrow> np_float \<Rightarrow> np_float" where
  "np_add (Finite x) (Finite y) = Finite (x + y)"
| "np_add NaN _ = NaN"
| "np_add _ NaN = NaN"
| "np_add PosInf NegInf = NaN"
| "np_add NegInf PosInf = NaN"
| "np_add PosInf _ = PosInf"
| "np_add _ PosInf = PosInf"
| "np_add NegInf _ = NegInf"
| "np_add _ NegInf = NegInf"

text \<open>The sum of stored values, as a number (no rounding of the sum itself).\<close>

definition np_sum :: "np_float list \<Rightarrow> np_float" where
  "np_sum xs = foldr np_add xs (Finite 0)"

fun in_unit_interval :: "np_float \<Rightarrow> bool" where
  "in_unit_interval (Finite x) = (0 \<le> x \<and> x \<le> 1)"
| "in_unit_interval _ = False"

text \<open>
  Rounding to a binary floating-point format with \<open>p\<close> significant bits and least normal
  exponent \<open>emin\<close>, to the nearest value, ties to the even significand (the IEEE 754
  default): \<open>binade\<close> is the exponent of the interval \<open>[2^e, 2^(e+1))\<close> that holds \<open>|x|\<close>,
  not below \<open>emin\<close> (below it the subnormal spacing applies), and neighbouring values of the
  format are \<open>2^(e - p + 1)\<close> apart there.
\<close>

definition rne :: "real \<Rightarrow> int" where
  "rne x =
     (let f = \<lfloor>x\<rfloor>
      in if x - of_int f < 1 / 2 then f
         else if 1 / 2 < x - of_int f then f + 1
         else if even f then f else f + 1)"

definition binade :: "int \<Rightarrow> real \<Rightarrow> int" where
  "binade emin x = max \<lfloor>log 2 \<bar>x\<bar>\<rfloor> emin"

definition round_to_format :: "nat \<Rightarrow> int \<Rightarrow> real \<Rightarrow> real" where
  "round_to_format p emin x =
     (if x = 0 then 0
      else let ulp = 2 powi (binade emin x - int p + 1)
           in sgn x * of_int (rne (\<bar>x\<bar> / ulp)) * ulp)"

text \<open>A rounded value beyond the largest finite one of the format is an infinity.\<close>

definition ieee_round :: "nat \<Rightarrow> int \<Rightarrow> int \<Rightarrow> real \<Rightarrow> np_float" where
  "ieee_round p emin emax x =
     (let y = round_to_format p emin x
      in if 2 powi (emax + 1) \<le> \<bar>y\<bar> then (if 0 < x then PosInf else NegInf) else Finite y)"

definition float64 :: "real \<Rightarrow> np_float" where
  "float64 = ieee_round 53 (- 1022) 1023"

definition float32 :: "real \<Rightarrow> np_float" where
  "float32 = ieee_round 24 (- 126) 127"

text \<open>
  \<open>x / n\<close> for an integer array entry \<open>x\<close> and the Python integer \<open>n\<close>: NumPy's true
  division, in double precision. Both operands are taken to be below \<open>2^53\<close> in size, so
  that their conversion to double precision is exact.
\<close>

definition np_true_divide :: "int \<Rightarrow> nat \<Rightarrow> np_float" where
  "np_true_divide x n =
     (if n = 0 then (if x = 0 then NaN else if 0 < x then PosInf else NegInf)
      else float64 (real_of_int x / real n))"

text \<open>\<open>torch.from_numpy(O).float()\<close> on one entry: conversion to single precision.\<close>

fun to_float32 :: "np_float \<Rightarrow> np_float" where
  "to_float32 (Finite x) = float32 x"
| "to_float32 PosInf = PosInf"
| "to_float32 NegInf = NegInf"
| "to_float32 NaN = NaN"

section \<open>Arrays and exceptions\<close>

text \<open>
  An array is a nested list, outermost axis first. \<open>tab n f\<close> is the axis of length \<open>n\<close>
  whose entry at index \<open>i\<close> is \<open>f i\<close>.
\<close>

type_synonym 'a tensor3 = "'a list list list"
type_synonym 'a tensor6 = "'a list list list list list list"

definition tab :: "nat \<Rightarrow> (nat \<Rightarrow> 'a) \<Rightarrow> 'a list" where
  "tab n f = map f [0..<n]"

definition py_range :: "nat \<Rightarrow> nat \<Rightarrow> int list" where
  "py_range a b = map int [a..<b]"

definition map6 :: "('a \<Rightarrow> 'b) \<Rightarrow> 'a tensor6 \<Rightarrow> 'b tensor6" where
  "map6 f = map (map (map (map (map (map f)))))"

text \<open>
  A two-dimensional integer array carries its shape, so that an array with no rows still
  has a number of columns (\<open>n, m = L.shape\<close>).
\<close>

record label_matrix =
  L_shape :: "nat \<times> nat"
  L_rows :: "int list list"

definition wf_label_matrix :: "label_matrix \<Rightarrow> bool" where
  "wf_label_matrix L \<longleftrightarrow>
     length (L_rows L) = fst (L_shape L) \<and>
     list_all (\<lambda>r. length r = snd (L_shape L)) (L_rows L)"

datatype exn = ValueError string | IndexError string | RuntimeError string

text \<open>Shapes of nested lists.\<close>

definition axis :: "nat \<Rightarrow> ('a \<Rightarrow> bool) \<Rightarrow> 'a list \<Rightarrow> bool" where
  "axis n P xs \<longleftrightarrow> length xs = n \<and> list_all P xs"

definition has_shape3 :: "nat \<times> nat \<times> nat \<Rightarrow> 'a tensor3 \<Rightarrow> bool" where
  "has_shape3 shp =
     (case shp of (d0, d1, d2) \<Rightarrow> axis d0 (axis d1 (axis d2 (\<lambda>_. True))))"

definition has_shape6 :: "nat \<times> nat \<times> nat \<times> nat \<times> nat \<times> nat \<Rightarrow> 'a tensor6 \<Rightarrow> bool" where
  "has_shape6 shp =
     (case shp of (d0, d1, d2, d3, d4, d5) \<Rightarrow>
        axis d0 (axis d1 (axis d2 (axis d3 (axis d4 (axis d5 (\<lambda>_. True)))))))"

section \<open>The arithmetic of the array libraries\<close>

text \<open>
  The fit and the decoding run in single precision inside NumPy and torch kernels. The
  source fixes which kernel is applied to which numbers; how a kernel rounds, and in which
  order it adds, belongs to the libraries. The kernels are therefore parameters of the
  model, each one a function from its finite operands to its result:
  \<^item> \<open>fl_sum\<close>, \<open>fl_mean\<close>: \<open>np.sum\<close> and \<open>np.mean\<close> along an axis, on the entries along it;
  \<^item> \<open>fl_pow3\<close>, \<open>fl_pow_third\<close>, \<open>fl_recip\<close>: the elementwise \<open>x ** 3\<close>, \<open>x ** (1 / 3)\<close> and
    \<open>1 / x\<close>;
  \<^item> \<open>fl_dot\<close>: one entry of a matrix product, from a row and a column;
  \<^item> \<open>fl_einsum\<close>: one entry of \<open>torch.einsum("aby,cdy,efy->acebdf", ...)\<close>, from the three
    rows along \<open>y\<close>;
  \<^item> \<open>fl_sub\<close>, \<open>fl_norm\<close>, \<open>fl_square\<close>: torch's elementwise subtraction, \<open>torch.norm\<close> of
    a vector and \<open>x ** 2\<close>.
  Results are read as real numbers: overflow is outside the model.
\<close>

record arith =
  fl_sum :: "real list \<Rightarrow> real"
  fl_mean :: "real list \<Rightarrow> real"
  fl_pow3 :: "real \<Rightarrow> real"
  fl_pow_third :: "real \<Rightarrow> real"
  fl_recip :: "real \<Rightarrow> real"
  fl_dot :: "real list \<Rightarrow> real list \<Rightarrow> real"
  fl_einsum :: "real list \<Rightarrow> real list \<Rightarrow> real list \<Rightarrow> real"
  fl_sub :: "real \<Rightarrow> real \<Rightarrow> real"
  fl_norm :: "real list \<Rightarrow> real"
  fl_square :: "real \<Rightarrow> real"

text \<open>Arithmetic without rounding: every kernel returns the exact result.\<close>

definition exact :: arith where
  "exact =
     \<lparr> fl_sum = sum_list,
       fl_mean = (\<lambda>xs. sum_list xs / real (length xs)),
       fl_pow3 = (\<lambda>x. x ^ 3),
       fl_pow_third = (\<lambda>x. x powr (1 / 3)),
       fl_recip = (\<lambda>x. 1 / x),
       fl_dot = (\<lambda>xs ys. \<Sum>z\<leftarrow>[0..<length xs]. xs ! z * ys ! z),
       fl_einsum = (\<lambda>xs ys zs. \<Sum>y\<leftarrow>[0..<length xs]. xs ! y * ys ! y * zs ! y),
       fl_sub = (\<lambda>x y. x - y),
       fl_norm = (\<lambda>xs. sqrt (\<Sum>x\<leftarrow>xs. x\<^sup>2)),
       fl_square = (\<lambda>x. x\<^sup>2) \<rparr>"

text \<open>
  Single precision with one rounding per kernel: every kernel returns the single-precision
  value nearest to the exact result. The libraries' kernels agree with it wherever their
  intermediate results are exact.
\<close>

definition single :: "real \<Rightarrow> real" where
  "single = round_to_format 24 (- 126)"

definition nearest32 :: arith where
  "nearest32 =
     \<lparr> fl_sum = (\<lambda>xs. single (sum_list xs)),
       fl_mean = (\<lambda>xs. single (sum_list xs / real (length xs))),
       fl_pow3 = (\<lambda>x. single (x ^ 3)),
       fl_pow_third = (\<lambda>x. single (x powr (1 / 3))),
       fl_recip = (\<lambda>x. single (1 / x)),
       fl_dot = (\<lambda>xs ys. single (\<Sum>z\<leftarrow>[0..<length xs]. xs ! z * ys ! z)),
       fl_einsum = (\<lambda>xs ys zs. single (\<Sum>y\<leftarrow>[0..<length xs]. xs ! y * ys ! y * zs ! y)),
       fl_sub = (\<lambda>x y. single (x - y)),
       fl_norm = (\<lambda>xs. single (sqrt (\<Sum>x\<leftarrow>xs. x\<^sup>2))),
       fl_square = (\<lambda>x. single (x\<^sup>2)) \<rparr>"

section \<open>The model object\<close>

text \<open>
  \<open>ClassBalanceModel.__init__\<close>. The attributes \<open>m\<close>, \<open>mask\<close> and \<open>Q\<close> do not exist
  before the first fit: they are \<open>None\<close> here until \<open>train_model\<close> sets them. The true
  label's cardinality \<open>k\<close> is a natural number.
\<close>

record 'c ClassBalanceModel =
  self_config :: 'c
  self_k :: nat
  self_abstains :: bool
  self_k_0 :: nat
  self_k_lf :: nat
  self_cond_probs :: "real tensor3 option"
  self_class_balance :: "real list option"
  self_m :: "nat option"
  self_mask :: "8 word tensor6 option"
  self_Q :: "real tensor3 option"

definition init :: "nat \<Rightarrow> bool \<Rightarrow> 'c \<Rightarrow> 'c ClassBalanceModel" where
  "init k abstains config =
     \<lparr> self_config = config,
       self_k = k,
       self_abstains = abstains,
       self_k_0 = (if abstains then 0 else 1),
       self_k_lf = (if abstains then k + 1 else k),
       self_cond_probs = None,
       self_class_balance = None,
       self_m = None,
       self_mask = None,
       self_Q = None \<rparr>"

text \<open>
  What \<open>__init__\<close> establishes between the attributes: \<open>k_0\<close> and \<open>k_lf\<close> follow from
  \<open>abstains\<close> and \<open>k\<close>.
\<close>

definition wf_model :: "'c ClassBalanceModel \<Rightarrow> bool" where
  "wf_model self \<longleftrightarrow>
     self_k_0 self = (if self_abstains self then 0 else 1) \<and>
     self_k_lf self = (if self_abstains self then self_k self + 1 else self_k self)"

section \<open>The three-way overlaps tensor\<close>

text \<open>
  \<open>np.einsum("abc,dbe,fbg->cegadf", X, Y, Z)\<close> for integer operands of shape
  \<open>(kl, n, m)\<close>: the output axes are \<open>c, e, g\<close> (of length \<open>m\<close>) and then \<open>a, d, f\<close> (of length
  \<open>kl\<close>); the repeated axis \<open>b\<close> (of length \<open>n\<close>) is summed. Integer arithmetic is exact.
\<close>

definition einsum_abc_dbe_fbg_cegadf ::
  "nat \<times> nat \<times> nat \<Rightarrow> int tensor3 \<Rightarrow> int tensor3 \<Rightarrow> int tensor3 \<Rightarrow> int tensor6" where
  "einsum_abc_dbe_fbg_cegadf shp X Y Z =
     (case shp of (kl, n, m) \<Rightarrow>
        tab m (\<lambda>c. tab m (\<lambda>e. tab m (\<lambda>g.
          tab kl (\<lambda>a. tab kl (\<lambda>d. tab kl (\<lambda>f.
            (\<Sum>b\<leftarrow>[0..<n]. X ! a ! b ! c * Y ! d ! b ! e * Z ! f ! b ! g))))))))"

text \<open>
  \<open>_get_overlaps_tensor\<close>: the indicator array \<open>LY\<close> has one \<open>(n, m)\<close> slice for each value
  of \<open>range(self.k_0, self.k + 1)\<close>; the contraction is divided by \<open>n\<close> in double
  precision, and the result is converted to a single-precision torch tensor.
\<close>

definition get_overlaps_tensor ::
  "'c ClassBalanceModel \<Rightarrow> label_matrix \<Rightarrow> np_float tensor6" where
  "get_overlaps_tensor self L =
     (case L_shape L of (n, m) \<Rightarrow>
        let ys = py_range (self_k_0 self) (self_k self + 1);
            LY = map (\<lambda>y. map (map (\<lambda>x. if x = y then 1 else 0)) (L_rows L)) ys;
            Ot = einsum_abc_dbe_fbg_cegadf (length ys, n, m) LY LY LY
        in map6 (\<lambda>x. to_float32 (np_true_divide x n)) Ot)"

text \<open>Reading the tensor at a source triple and a value triple.\<close>

definition at6 :: "'a tensor6 \<Rightarrow> nat list \<Rightarrow> nat list \<Rightarrow> 'a" where
  "at6 T src val = T ! (src ! 0) ! (src ! 1) ! (src ! 2) ! (val ! 0) ! (val ! 1) ! (val ! 2)"

text \<open>
  A valid label matrix: an \<open>n \<times> m\<close> integer matrix with every entry in \<open>{k_0,...,k}\<close>.
\<close>

definition valid_label_matrix :: "'c ClassBalanceModel \<Rightarrow> label_matrix \<Rightarrow> bool" where
  "valid_label_matrix self L \<longleftrightarrow>
     wf_label_matrix L \<and>
     list_all (list_all (\<lambda>x. int (self_k_0 self) \<le> x \<and> x \<le> int (self_k self))) (L_rows L)"

text \<open>
  The number of examples (rows) on which source \<open>i\<close> emits the \<open>a\<close>-th value, source \<open>j\<close>
  the \<open>b\<close>-th and source \<open>l\<close> the \<open>c\<close>-th, values counted from \<open>k_0\<close>.
\<close>

definition emits :: "nat \<Rightarrow> label_matrix \<Rightarrow> nat \<Rightarrow> nat \<Rightarrow> nat \<Rightarrow> int" where
  "emits k0 L r i a = (if L_rows L ! r ! i = int (k0 + a) then 1 else 0)"

definition overlap_count ::
  "nat \<Rightarrow> label_matrix \<Rightarrow> nat \<Rightarrow> nat \<Rightarrow> nat \<Rightarrow> nat \<Rightarrow> nat \<Rightarrow> nat \<Rightarrow> int" where
  "overlap_count k0 L i j l a b c =
     (\<Sum>r\<leftarrow>[0..<fst (L_shape L)]. emits k0 L r i a * emits k0 L r j b * emits k0 L r l c)"

section \<open>The validity mask\<close>

definition torch_ones :: "nat \<times> nat \<times> nat \<times> nat \<times> nat \<times> nat \<Rightarrow> 8 word tensor6" where
  "torch_ones shp =
     (case shp of (d0, d1, d2, d3, d4, d5) \<Rightarrow>
        replicate d0 (replicate d1 (replicate d2
          (replicate d3 (replicate d4 (replicate d5 1))))))"

text \<open>The assignment \<open>mask[i, j, k, :, :, :] = 0\<close>.\<close>

definition assign_zero :: "8 word tensor6 \<Rightarrow> nat \<Rightarrow> nat \<Rightarrow> nat \<Rightarrow> 8 word tensor6" where
  "assign_zero msk i j k =
     msk[i := (msk ! i)[j := (msk ! i ! j)[k := map (map (map (\<lambda>_. 0))) (msk ! i ! j ! k)]]]"

text \<open>
  \<open>get_mask\<close>: the loop runs over \<open>product(range(m), repeat=3)\<close> in its order, the last
  index fastest, and updates the tensor in place.
\<close>

definition get_mask :: "'c ClassBalanceModel \<Rightarrow> nat \<Rightarrow> 8 word tensor6" where
  "get_mask self m =
     fold (\<lambda>(i, j, k). \<lambda>msk. if card (set [i, j, k]) < 3 then assign_zero msk i j k else msk)
       (List.product [0..<m] (List.product [0..<m] [0..<m]))
       (torch_ones (m, m, m, self_k_lf self, self_k_lf self, self_k_lf self))"

section \<open>The loss\<close>

text \<open>
  The shape of a three-dimensional tensor, read off the nested list. Behind an axis of
  length 0 the remaining lengths read as 0; no entry is ever indexed there.
\<close>

definition shape3 :: "'a tensor3 \<Rightarrow> nat \<times> nat \<times> nat" where
  "shape3 T =
     (length T,
      (case T of [] \<Rightarrow> 0 | r # _ \<Rightarrow> length r),
      (case T of [] \<Rightarrow> 0 | r # _ \<Rightarrow> (case r of [] \<Rightarrow> 0 | c # _ \<Rightarrow> length c)))"

text \<open>
  \<open>torch.einsum("aby,cdy,efy->acebdf", [X, Y, Z])\<close> for operands of shape \<open>(m, kl, k)\<close>:
  the entry at \<open>(a, c, e, b, d, f)\<close> contracts the rows \<open>X[a, b, :]\<close>, \<open>Y[c, d, :]\<close> and
  \<open>Z[e, f, :]\<close>.
\<close>

definition einsum_aby_cdy_efy_acebdf ::
  "arith \<Rightarrow> nat \<times> nat \<times> nat \<Rightarrow> real tensor3 \<Rightarrow> real tensor3 \<Rightarrow> real tensor3 \<Rightarrow> real tensor6" where
  "einsum_aby_cdy_efy_acebdf A shp X Y Z =
     (case shp of (m, kl, k) \<Rightarrow>
        tab m (\<lambda>a. tab m (\<lambda>c. tab m (\<lambda>e.
          tab kl (\<lambda>b. tab kl (\<lambda>d. tab kl (\<lambda>f.
            fl_einsum A (X ! a ! b) (Y ! c ! d) (Z ! e ! f))))))))"

text \<open>
  Elementwise subtraction and selection by a byte mask, for operands of one and the same
  shape (torch broadcasts or raises on other shapes; that is outside this model). The
  selection keeps, in row-major order, the entries whose mask byte is not zero.
\<close>

definition sub6 :: "arith \<Rightarrow> real tensor6 \<Rightarrow> real tensor6 \<Rightarrow> real tensor6" where
  "sub6 A = map2 (map2 (map2 (map2 (map2 (map2 (fl_sub A))))))"

definition select1 :: "real list \<Rightarrow> 8 word list \<Rightarrow> real list" where
  "select1 xs bs = map fst (filter (\<lambda>(x, b). b \<noteq> 0) (zip xs bs))"

definition select_axis :: "('a \<Rightarrow> 'b \<Rightarrow> real list) \<Rightarrow> 'a list \<Rightarrow> 'b list \<Rightarrow> real list" where
  "select_axis f X M = concat (map2 f X M)"

definition masked_select :: "real tensor6 \<Rightarrow> 8 word tensor6 \<Rightarrow> real list" where
  "masked_select =
     select_axis (select_axis (select_axis (select_axis (select_axis select1))))"

text \<open>\<open>get_loss\<close>: \<open>torch.norm(diffs) ** 2\<close> for the selected differences.\<close>

definition get_loss :: "arith \<Rightarrow> real tensor6 \<Rightarrow> real tensor3 \<Rightarrow> 8 word tensor6 \<Rightarrow> real" where
  "get_loss A Ot Q msk =
     (let diffs = masked_select (sub6 A Ot (einsum_aby_cdy_efy_acebdf A (shape3 Q) Q Q Q)) msk
      in fl_square A (fl_norm A diffs))"

text \<open>
  The residuals at exactly the entries where the mask is true, in row-major order of
  \<open>(i, j, l, a, b, c)\<close>: the residual at an entry is \<open>O[i,j,l,a,b,c]\<close> minus the contraction
  of \<open>Q[i,a,:]\<close>, \<open>Q[j,b,:]\<close> and \<open>Q[l,c,:]\<close>.
\<close>

definition masked_residuals ::
  "arith \<Rightarrow> nat \<times> nat \<times> nat \<Rightarrow> real tensor6 \<Rightarrow> real tensor3 \<Rightarrow> 8 word tensor6 \<Rightarrow> real list" where
  "masked_residuals A shp Ot Q msk =
     (case shp of (m, kl, k) \<Rightarrow>
        concat (tab m (\<lambda>i. concat (tab m (\<lambda>j. concat (tab m (\<lambda>l.
          concat (tab kl (\<lambda>a. concat (tab kl (\<lambda>b. concat (tab kl (\<lambda>c.
            if msk ! i ! j ! l ! a ! b ! c \<noteq> 0
            then [fl_sub A (Ot ! i ! j ! l ! a ! b ! c)
                    (fl_einsum A (Q ! i ! a) (Q ! j ! b) (Q ! l ! c))]
            else [])))))))))))))"

text \<open>
  The sum of the squared residuals over the entries where the mask is true, as the
  specification states the objective, in real numbers.
\<close>

definition masked_squared_residuals ::
  "nat \<times> nat \<times> nat \<Rightarrow> real tensor6 \<Rightarrow> real tensor3 \<Rightarrow> 8 word tensor6 \<Rightarrow> real" where
  "masked_squared_residuals shp Ot Q msk =
     (case shp of (m, kl, k) \<Rightarrow>
        (\<Sum>i<m. \<Sum>j<m. \<Sum>l<m. \<Sum>a<kl. \<Sum>b<kl. \<Sum>c<kl.
           if msk ! i ! j ! l ! a ! b ! c \<noteq> 0
           then (Ot ! i ! j ! l ! a ! b ! c -
                 (\<Sum>y<k. Q ! i ! a ! y * Q ! j ! b ! y * Q ! l ! c ! y))\<^sup>2
           else 0))"

section \<open>Decoding the fitted factor\<close>













section \<open>Fitting\<close>

text \<open>
  A call ends by returning, by raising, or by leaving the part of floating-point
  arithmetic that this model covers: a NaN or an infinity among the numbers, or a
  caller-supplied overlaps tensor that has not the shape of the mask. The model says
  nothing about the state after that third kind of call.
\<close>

datatype 's outcome = Returned 's | Raised exn 's | NotModelled

text \<open>The overlaps tensor as a tensor of reals, where every entry is finite.\<close>

fun the_finite :: "np_float \<Rightarrow> real option" where
  "the_finite (Finite x) = Some x"
| "the_finite _ = None"







text \<open>
  An L-BFGS step that leaves the parameter where it is, as torch's does when
  \<open>max_iter = 0\<close> or when the gradient at the initial point is already within tolerance.
\<close>

definition lbfgs_no_step ::
  "real \<Rightarrow> nat \<Rightarrow> (real tensor3 \<Rightarrow> real) \<Rightarrow> real tensor3 \<Rightarrow> exn + (nat \<Rightarrow> nat \<Rightarrow> nat \<Rightarrow> real)" where
  "lbfgs_no_step lr max_iter closure Q = Inr (\<lambda>i v y. Q ! i ! v ! y)"

text \<open>The state after a call that returned.\<close>

fun returned :: "'s outcome \<Rightarrow> 's option" where
  "returned (Returned s) = Some s"
| "returned _ = None"

section \<open>Auxiliary notions\<close>

text \<open>The three source axes of a tensor all have length \<open>m\<close>.\<close>

definition outer3 :: "nat \<Rightarrow> 'a list list list \<Rightarrow> bool" where
  "outer3 m M \<longleftrightarrow> length M = m \<and> (\<forall>i<m. length (M ! i) = m \<and> (\<forall>j<m. length (M ! i ! j) = m))"

section \<open>Properties of lists and sums\<close>

lemma length_tab [simp]: "length (tab n f) = n"
  by (simp add: tab_def)

lemma nth_tab [simp]: "i < n \<Longrightarrow> tab n f ! i = f i"
  by (simp add: tab_def)

lemma length_py_range [simp]: "length (py_range a b) = b - a"
  by (simp add: py_range_def)

lemma nth_py_range [simp]: "i < b - a \<Longrightarrow> py_range a b ! i = int (a + i)"
  by (simp add: py_range_def del: upt_Suc)

lemma np_sum_Finite: "np_sum (map Finite xs) = Finite (sum_list xs)"
  by (induction xs) (simp_all add: np_sum_def)

lemma map_tab: "map g (tab n f) = tab n (\<lambda>i. g (f i))"
  by (simp add: tab_def)

lemma tab_cong: "(\<And>i. i < n \<Longrightarrow> f i = g i) \<Longrightarrow> tab n f = tab n g"
  by (simp add: tab_def)

lemma sum_list_tab: "sum_list (tab n f) = (\<Sum>i<n. f i)"
  by (simp add: tab_def interv_sum_list_conv_sum_set_nat atLeast0LessThan)

lemma sum_list_concat: "sum_list (concat xss) = (\<Sum>xs\<leftarrow>xss. sum_list xs)"
  by (induction xss) simp_all

lemma concat_tab_Finite:
  "concat (concat (tab p (\<lambda>a. tab q (\<lambda>b. tab r (\<lambda>c. Finite (g a b c)))))) =
   map Finite (concat (concat (tab p (\<lambda>a. tab q (\<lambda>b. tab r (\<lambda>c. g a b c))))))"
  by (simp add: tab_def map_concat comp_def)

lemma sum_list_concat_tab:
  "sum_list (concat (concat (tab p (\<lambda>a. tab q (\<lambda>b. tab r (\<lambda>c. (g a b c :: real))))))) =
   (\<Sum>a<p. \<Sum>b<q. \<Sum>c<r. g a b c)"
  by (simp add: tab_def sum_list_concat map_concat comp_def interv_sum_list_conv_sum_set_nat atLeast0LessThan)

lemma emits_sum:
  assumes "int k0 \<le> x" "x \<le> int k" "L_rows L ! r ! i = x"
  shows "(\<Sum>a<(k + 1 - k0). emits k0 L r i a) = 1"
proof -
  have "emits k0 L r i a = (if a = nat x - k0 then 1 else 0)" if "a < k + 1 - k0" for a
    using assms that by (auto simp: emits_def)
  then have "(\<Sum>a<(k + 1 - k0). emits k0 L r i a) = (\<Sum>a<(k + 1 - k0). if a = nat x - k0 then 1 else 0)"
    by (intro sum.cong) auto
  also have "\<dots> = 1"
    using assms by (subst sum.delta) auto
  finally show ?thesis .
qed


lemma sum_swap4:
  fixes f :: "'a \<Rightarrow> 'b \<Rightarrow> 'c \<Rightarrow> 'd \<Rightarrow> 'e::comm_monoid_add"
  shows "(\<Sum>a\<in>A. \<Sum>b\<in>B. \<Sum>c\<in>C. \<Sum>r\<in>R. f a b c r) = (\<Sum>r\<in>R. \<Sum>a\<in>A. \<Sum>b\<in>B. \<Sum>c\<in>C. f a b c r)"
proof -
  have "(\<Sum>a\<in>A. \<Sum>b\<in>B. \<Sum>c\<in>C. \<Sum>r\<in>R. f a b c r) = (\<Sum>a\<in>A. \<Sum>b\<in>B. \<Sum>r\<in>R. \<Sum>c\<in>C. f a b c r)"
    by (intro sum.cong refl sum.swap)
  also have "\<dots> = (\<Sum>a\<in>A. \<Sum>r\<in>R. \<Sum>b\<in>B. \<Sum>c\<in>C. f a b c r)"
    by (intro sum.cong refl sum.swap)
  also have "\<dots> = (\<Sum>r\<in>R. \<Sum>a\<in>A. \<Sum>b\<in>B. \<Sum>c\<in>C. f a b c r)"
    by (rule sum.swap)
  finally show ?thesis .
qed

lemma sum_product3:
  fixes f :: "'a \<Rightarrow> int"
  shows "(\<Sum>a\<in>A. \<Sum>b\<in>B. \<Sum>c\<in>C. f a * g b * h c) = sum f A * sum g B * sum h C"
  by (simp add: sum_distrib_left [symmetric] sum_distrib_right [symmetric])

lemma emits_range: "0 \<le> emits k0 L r i a \<and> emits k0 L r i a \<le> 1"
  by (simp add: emits_def)

lemma overlap_count_nonneg: "0 \<le> overlap_count k0 L i j l a b c"
  unfolding overlap_count_def
  by (intro sum_list_nonneg) (auto simp: emits_def)

lemma overlap_count_le: "overlap_count k0 L i j l a b c \<le> int (fst (L_shape L))"
proof -
  have "(\<Sum>r\<leftarrow>[0..<n]. emits k0 L r i a * emits k0 L r j b * emits k0 L r l c) \<le> (\<Sum>r\<leftarrow>[0..<n]. 1)" for n
    by (intro sum_list_mono) (auto simp: emits_def)
  then show ?thesis
    by (simp add: overlap_count_def sum_list_triv)
qed

lemma overlap_count_total:
  assumes "valid_label_matrix self L" "L_shape L = (n, m)" "i < m" "j < m" "l < m"
    and kl: "kl = self_k self + 1 - self_k_0 self"
  shows "(\<Sum>a<kl. \<Sum>b<kl. \<Sum>c<kl. overlap_count (self_k_0 self) L i j l a b c) = int n"
proof -
  let ?k0 = "self_k_0 self" and ?kl = "kl"
  have len: "length (L_rows L) = n" and row: "\<And>r. r < n \<Longrightarrow> length (L_rows L ! r) = m"
    using assms(1,2) by (simp_all add: valid_label_matrix_def wf_label_matrix_def list_all_length)
  have inr: "int ?k0 \<le> L_rows L ! r ! s \<and> L_rows L ! r ! s \<le> int (self_k self)" if "r < n" "s < m" for r s
    using assms(1) that len row by (simp add: valid_label_matrix_def list_all_length)
  have one: "(\<Sum>a<?kl. emits ?k0 L r s a) = 1" if "r < n" "s < m" for r s
    unfolding kl using inr [OF that] by (intro emits_sum [where x = "L_rows L ! r ! s"]) auto
  have "(\<Sum>a<?kl. \<Sum>b<?kl. \<Sum>c<?kl. overlap_count ?k0 L i j l a b c) =
        (\<Sum>a<?kl. \<Sum>b<?kl. \<Sum>c<?kl. \<Sum>r<n. emits ?k0 L r i a * emits ?k0 L r j b * emits ?k0 L r l c)"
    using assms(2) by (simp add: overlap_count_def interv_sum_list_conv_sum_set_nat atLeast0LessThan)
  also have "\<dots> = (\<Sum>r<n. (\<Sum>a<?kl. emits ?k0 L r i a) * (\<Sum>b<?kl. emits ?k0 L r j b) * (\<Sum>c<?kl. emits ?k0 L r l c))"
    by (simp only: sum_swap4 [where R = "{..<n}"] sum_product3)
  also have "\<dots> = (\<Sum>r<n. 1)"
    using assms(3-5) by (intro sum.cong) (simp_all add: one)
  finally show ?thesis by simp
qed

lemma indicator_nth:
  assumes "wf_label_matrix L" "L_shape L = (n, m)" "v < k1 - k0" "r < n" "s < m"
  shows "map (\<lambda>y. map (map (\<lambda>x. if x = y then 1 else 0)) (L_rows L)) (py_range k0 k1) ! v ! r ! s
         = emits k0 L r s v"
proof -
  have "length (L_rows L) = n" "length (L_rows L ! r) = m"
    using assms by (simp_all add: wf_label_matrix_def list_all_length)
  then show ?thesis
    using assms by (simp add: emits_def)
qed

section \<open>Properties of rounding\<close>

lemma rne_bounds: "\<lfloor>x\<rfloor> \<le> rne x \<and> rne x \<le> \<lfloor>x\<rfloor> + 1"
  by (simp add: rne_def Let_def)

lemma rne_of_int [simp]: "rne (of_int n) = n"
  by (simp add: rne_def)

lemma rne_nonneg: "0 \<le> x \<Longrightarrow> 0 \<le> rne x"
proof -
  assume "0 \<le> x"
  then have "0 \<le> \<lfloor>x\<rfloor>" by simp
  then show ?thesis
    using rne_bounds [of x] by linarith
qed

lemma rne_le_int:
  assumes "x \<le> of_int n"
  shows "rne x \<le> n"
proof (cases "x = of_int n")
  case True
  then show ?thesis by simp
next
  case False
  with assms have "x < of_int n" by simp
  then have "\<lfloor>x\<rfloor> < n"
    by (simp add: floor_less_iff)
  then show ?thesis
    using rne_bounds [of x] by linarith
qed

lemma rne_nearest:
  assumes "of_int n - 1 / 2 < x" "x < of_int n + 1 / 2"
  shows "rne x = n"
proof -
  have "of_int (n - 1) \<le> x"
    using assms(1) by simp
  then have lo: "n - 1 \<le> \<lfloor>x\<rfloor>"
    by (simp only: le_floor_iff)
  have "x < of_int (n + 1)"
    using assms(2) by simp
  then have hi: "\<lfloor>x\<rfloor> < n + 1"
    by (simp only: floor_less_iff)
  consider "\<lfloor>x\<rfloor> = n" | "\<lfloor>x\<rfloor> = n - 1"
    using lo hi by linarith
  then show ?thesis
  proof cases
    case 1
    then show ?thesis using assms by (simp add: rne_def Let_def)
  next
    case 2
    then show ?thesis using assms by (simp add: rne_def Let_def)
  qed
qed

lemma rne_tie_even:
  assumes "x = of_int n + 1 / 2" "even n"
  shows "rne x = n"
proof -
  have "\<lfloor>x\<rfloor> = n"
    unfolding assms(1) by linarith
  then show ?thesis
    using assms by (simp add: rne_def Let_def)
qed

lemma binade_eq:
  assumes "0 < x" "2 powi e \<le> x" "x < 2 powi (e + 1)" "emin \<le> e"
  shows "binade emin x = e"
proof -
  have "2 powr (of_int e) = (2::real) powi e" "2 powr (of_int (e + 1)) = (2::real) powi (e + 1)"
    by (simp_all only: powr_real_of_int' [of 2, simplified])
  then have "2 powr (of_int e) \<le> x \<and> x < 2 powr (of_int e + 1)"
    using assms(2,3) by simp
  then have "\<lfloor>log 2 x\<rfloor> = e"
    using assms(1) floor_log_eq_powr_iff [of x 2 e] by simp
  then show ?thesis
    using assms(1,4) by (simp add: binade_def)
qed

lemma round_to_format_eval:
  assumes "0 < x" "2 powi e \<le> x" "x < 2 powi (e + 1)" "emin \<le> e"
    and "rne (x / 2 powi (e - int p + 1)) = n"
  shows "round_to_format p emin x = of_int n * 2 powi (e - int p + 1)"
  using assms(1,5) by (simp add: round_to_format_def binade_eq [OF assms(1-4)] Let_def)

lemma binade_le_zero:
  assumes "0 < x" "x \<le> 1" "emin \<le> 0"
  shows "binade emin x \<le> 0"
proof -
  have "log 2 x \<le> 0"
    using assms(1,2) by simp
  then have "\<lfloor>log 2 x\<rfloor> \<le> 0"
    by (simp add: floor_le_iff)
  then show ?thesis
    using assms(1,3) by (simp add: binade_def)
qed

lemma round_to_format_unit:
  assumes "0 \<le> x" "x \<le> 1" "emin \<le> 0" "0 < p"
  shows "0 \<le> round_to_format p emin x \<and> round_to_format p emin x \<le> 1"
proof (cases "x = 0")
  case True
  then show ?thesis by (simp add: round_to_format_def)
next
  case False
  with assms(1) have pos: "0 < x" by simp
  define e where "e = binade emin x"
  define ulp :: real where "ulp = 2 powi (e - int p + 1)"
  define N :: int where "N = 2 ^ nat (int p - 1 - e)"
  have e: "e \<le> 0"
    unfolding e_def using pos assms(2,3) by (rule binade_le_zero)
  have ulp: "0 < ulp"
    by (simp add: ulp_def)
  have r: "round_to_format p emin x = of_int (rne (x / ulp)) * ulp"
    using pos by (simp add: round_to_format_def e_def ulp_def Let_def)
  have "of_int N * ulp = (2::real) powi (int p - 1 - e) * 2 powi (e - int p + 1)"
    using e assms(4) by (simp add: N_def ulp_def power_int_def)
  also have "\<dots> = 2 powi ((int p - 1 - e) + (e - int p + 1))"
    by (subst power_int_add) simp_all
  also have "(int p - 1 - e) + (e - int p + 1) = 0"
    by simp
  finally have N: "of_int N * ulp = 1"
    by simp
  have "x / ulp \<le> 1 / ulp"
    using assms(2) ulp by (simp add: divide_right_mono)
  also have "1 / ulp = of_int N"
    using N ulp by (simp add: field_simps)
  finally have "rne (x / ulp) \<le> N"
    by (rule rne_le_int)
  then have "of_int (rne (x / ulp)) * ulp \<le> of_int N * ulp"
    using ulp by (simp add: mult_right_mono)
  moreover have "0 \<le> rne (x / ulp)"
    using pos ulp by (intro rne_nonneg) simp
  ultimately show ?thesis
    using ulp N r by simp
qed

lemma rne_error: "\<bar>of_int (rne x) - x\<bar> \<le> 1 / 2"
proof -
  have "of_int \<lfloor>x\<rfloor> \<le> x" "x < of_int \<lfloor>x\<rfloor> + 1"
    by linarith+
  then show ?thesis
    by (auto simp: rne_def Let_def)
qed

lemma round_to_format_error:
  assumes "0 \<le> x" "x \<le> 1" "emin \<le> 0" "0 < p"
  shows "\<bar>round_to_format p emin x - x\<bar> \<le> 2 powi (- int p)"
proof (cases "x = 0")
  case True
  then show ?thesis by (simp add: round_to_format_def)
next
  case False
  with assms(1) have pos: "0 < x" by simp
  define e where "e = binade emin x"
  define ulp :: real where "ulp = 2 powi (e - int p + 1)"
  have e: "e \<le> 0"
    unfolding e_def using pos assms(2,3) by (rule binade_le_zero)
  have ulp: "0 < ulp"
    by (simp add: ulp_def)
  have r: "round_to_format p emin x = of_int (rne (x / ulp)) * ulp"
    using pos by (simp add: round_to_format_def e_def ulp_def Let_def)
  have "ulp \<le> 2 powi (- int p + 1)"
    unfolding ulp_def using e by (intro power_int_increasing) simp_all
  also have "\<dots> = 2 * 2 powi (- int p)"
    by (subst power_int_add) simp_all
  finally have small: "ulp / 2 \<le> 2 powi (- int p)"
    by simp
  have "round_to_format p emin x - x = (of_int (rne (x / ulp)) - x / ulp) * ulp"
    using ulp by (simp add: r field_simps)
  then have "\<bar>round_to_format p emin x - x\<bar> = \<bar>of_int (rne (x / ulp)) - x / ulp\<bar> * ulp"
    using ulp by (simp add: abs_mult)
  also have "\<dots> \<le> 1 / 2 * ulp"
    using ulp by (intro mult_right_mono rne_error) simp
  finally show ?thesis
    using small by simp
qed

lemma ieee_round_unit:
  assumes "0 \<le> x" "x \<le> 1" "emin \<le> 0" "0 < p" "0 \<le> emax"
  shows "ieee_round p emin emax x = Finite (round_to_format p emin x)"
proof -
  have "(2::real) powi (emax + 1) = 2 ^ nat (emax + 1)"
    using assms(5) by (simp add: power_int_def)
  moreover have "(1::real) < 2 ^ nat (emax + 1)"
    using assms(5) by (intro one_less_power) simp_all
  ultimately have "\<bar>round_to_format p emin x\<bar> < 2 powi (emax + 1)"
    using round_to_format_unit [OF assms(1-4)] by simp
  then show ?thesis
    by (simp add: ieee_round_def Let_def)
qed

text \<open>The stored overlap rate, for a count between 0 and n.\<close>

lemma stored_rate:
  assumes "0 \<le> c" "c \<le> int n" "0 < n"
  obtains y where "to_float32 (np_true_divide c n) = Finite y" "0 \<le> y" "y \<le> 1"
    "\<bar>y - real_of_int c / real n\<bar> \<le> 1 / 2 ^ 23"
proof -
  define x where "x = real_of_int c / real n"
  define d where "d = round_to_format 53 (- 1022) x"
  define y where "y = round_to_format 24 (- 126) d"
  have x: "0 \<le> x" "x \<le> 1"
    using assms by (simp_all add: x_def)
  have d: "0 \<le> d" "d \<le> 1"
    using round_to_format_unit [OF x, of "- 1022" 53] by (simp_all add: d_def)
  have y: "0 \<le> y" "y \<le> 1"
    using round_to_format_unit [OF d, of "- 126" 24] by (simp_all add: y_def)
  have "np_true_divide c n = Finite d"
    using assms(3) x by (simp add: np_true_divide_def float64_def ieee_round_unit d_def x_def)
  then have st: "to_float32 (np_true_divide c n) = Finite y"
    using d by (simp add: float32_def ieee_round_unit y_def)
  have "\<bar>d - x\<bar> \<le> 2 powi (- int 53)"
    unfolding d_def using x by (intro round_to_format_error) simp_all
  moreover have "\<bar>y - d\<bar> \<le> 2 powi (- int 24)"
    unfolding y_def using d by (intro round_to_format_error) simp_all
  ultimately have "\<bar>y - x\<bar> \<le> 2 powi (- int 53) + 2 powi (- int 24)"
    by linarith
  also have "\<dots> \<le> 1 / 2 ^ 23"
    by (simp add: power_int_minus_divide)
  finally show ?thesis
    using that [OF st y] by (simp add: x_def)
qed

lemma float64_two_thirds:
  "float64 (2 / 3) = Finite (6004799503160661 / 9007199254740992)"
proof -
  have "round_to_format 53 (- 1022) (2 / 3) = of_int 6004799503160661 * 2 powi (- 1 - int 53 + 1)"
    by (rule round_to_format_eval) (simp_all add: power_int_minus_divide rne_nearest)
  then have r: "round_to_format 53 (- 1022) (2 / 3) = 6004799503160661 / 9007199254740992"
    by (simp add: power_int_minus_divide)
  show ?thesis
    by (simp add: float64_def ieee_round_unit r)
qed

section \<open>Properties of the overlaps tensor\<close>

lemma float32_two_thirds:
  "float32 (6004799503160661 / 9007199254740992) = Finite (11184811 / 16777216)"
proof -
  have "round_to_format 24 (- 126) (6004799503160661 / 9007199254740992) =
        of_int 11184811 * 2 powi (- 1 - int 24 + 1)"
    by (rule round_to_format_eval) (simp_all add: power_int_minus_divide rne_nearest)
  then have r: "round_to_format 24 (- 126) (6004799503160661 / 9007199254740992) =
      11184811 / 16777216"
    by (simp add: power_int_minus_divide)
  show ?thesis
    by (simp add: float32_def ieee_round_unit r)
qed

lemma float64_one_third:
  "float64 (1 / 3) = Finite (6004799503160661 / 18014398509481984)"
proof -
  have "round_to_format 53 (- 1022) (1 / 3) = of_int 6004799503160661 * 2 powi (- 2 - int 53 + 1)"
    by (rule round_to_format_eval) (simp_all add: power_int_minus_divide rne_nearest)
  then have r: "round_to_format 53 (- 1022) (1 / 3) = 6004799503160661 / 18014398509481984"
    by (simp add: power_int_minus_divide)
  show ?thesis
    by (simp add: float64_def ieee_round_unit r)
qed

lemma float32_one_third:
  "float32 (6004799503160661 / 18014398509481984) = Finite (11184811 / 33554432)"
proof -
  have "round_to_format 24 (- 126) (6004799503160661 / 18014398509481984) =
        of_int 11184811 * 2 powi (- 2 - int 24 + 1)"
    by (rule round_to_format_eval) (simp_all add: power_int_minus_divide rne_nearest)
  then have r: "round_to_format 24 (- 126) (6004799503160661 / 18014398509481984) =
      11184811 / 33554432"
    by (simp add: power_int_minus_divide)
  show ?thesis
    by (simp add: float32_def ieee_round_unit r)
qed

lemma stored_two_thirds: "to_float32 (np_true_divide 2 3) = Finite (11184811 / 16777216)"
  by (simp add: np_true_divide_def float64_two_thirds float32_two_thirds)

lemma stored_one_third: "to_float32 (np_true_divide 1 3) = Finite (11184811 / 33554432)"
  by (simp add: np_true_divide_def float64_one_third float32_one_third)

lemma stored_zero: "0 < n \<Longrightarrow> to_float32 (np_true_divide 0 n) = Finite 0"
  by (simp add: np_true_divide_def float64_def float32_def ieee_round_def round_to_format_def)

lemma sum3_abs_bound:
  fixes h :: "nat \<Rightarrow> nat \<Rightarrow> nat \<Rightarrow> real"
  assumes "\<And>a b c. a < p \<Longrightarrow> b < q \<Longrightarrow> c < r \<Longrightarrow> \<bar>h a b c\<bar> \<le> e"
  shows "\<bar>\<Sum>a<p. \<Sum>b<q. \<Sum>c<r. h a b c\<bar> \<le> real (p * q * r) * e"
proof -
  have 1: "\<bar>\<Sum>c<r. h a b c\<bar> \<le> real r * e" if "a < p" "b < q" for a b
  proof -
    have "\<bar>\<Sum>c<r. h a b c\<bar> \<le> (\<Sum>c<r. \<bar>h a b c\<bar>)"
      by (rule sum_abs)
    also have "\<dots> \<le> (\<Sum>c<r. e)"
      using that by (intro sum_mono assms) simp_all
    finally show ?thesis by simp
  qed
  have 2: "\<bar>\<Sum>b<q. \<Sum>c<r. h a b c\<bar> \<le> real q * (real r * e)" if "a < p" for a
  proof -
    have "\<bar>\<Sum>b<q. \<Sum>c<r. h a b c\<bar> \<le> (\<Sum>b<q. \<bar>\<Sum>c<r. h a b c\<bar>)"
      by (rule sum_abs)
    also have "\<dots> \<le> (\<Sum>b<q. real r * e)"
      using that by (intro sum_mono 1) simp_all
    finally show ?thesis by simp
  qed
  have "\<bar>\<Sum>a<p. \<Sum>b<q. \<Sum>c<r. h a b c\<bar> \<le> (\<Sum>a<p. \<bar>\<Sum>b<q. \<Sum>c<r. h a b c\<bar>)"
    by (rule sum_abs)
  also have "\<dots> \<le> (\<Sum>a<p. real q * (real r * e))"
    by (intro sum_mono 2) simp_all
  finally show ?thesis by (simp add: mult_ac)
qed

lemma overlaps_slice:
  assumes wf: "wf_label_matrix L"
    and shp: "L_shape L = (n, m)"
    and src: "i < m" "j < m" "l < m"
    and kl: "kl = self_k self + 1 - self_k_0 self"
  shows "get_overlaps_tensor self L ! i ! j ! l =
         tab kl (\<lambda>a. tab kl (\<lambda>b. tab kl (\<lambda>c.
           to_float32 (np_true_divide (overlap_count (self_k_0 self) L i j l a b c) n))))"
proof -
  let ?k0 = "self_k_0 self"
  let ?LY = "map (\<lambda>y. map (map (\<lambda>x. if x = y then 1 else 0)) (L_rows L))
               (py_range ?k0 (self_k self + 1))"
  have cnt: "(\<Sum>r\<leftarrow>[0..<n]. ?LY ! a ! r ! i * ?LY ! b ! r ! j * ?LY ! c ! r ! l) =
        overlap_count ?k0 L i j l a b c" if "a < kl" "b < kl" "c < kl" for a b c
    unfolding overlap_count_def shp fst_conv
    by (rule arg_cong [where f = sum_list], rule map_cong)
       (use that src kl indicator_nth [OF wf shp] in auto)
  have "get_overlaps_tensor self L ! i ! j ! l =
        tab kl (\<lambda>a. tab kl (\<lambda>b. tab kl (\<lambda>c.
          to_float32 (np_true_divide
            (\<Sum>r\<leftarrow>[0..<n]. ?LY ! a ! r ! i * ?LY ! b ! r ! j * ?LY ! c ! r ! l) n))))"
    using src shp kl
    by (simp add: get_overlaps_tensor_def einsum_abc_dbe_fbg_cegadf_def map6_def Let_def map_tab)
  also have "\<dots> = tab kl (\<lambda>a. tab kl (\<lambda>b. tab kl (\<lambda>c.
           to_float32 (np_true_divide (overlap_count ?k0 L i j l a b c) n))))"
    by (intro tab_cong arg_cong [where f = to_float32] arg_cong2 [where f = np_true_divide] cnt refl)
  finally show ?thesis .
qed

lemma perm3_cases:
  assumes "set p = {0, 1, 2::nat}" "length p = 3"
  shows "p \<in> {[0,1,2], [0,2,1], [1,0,2], [1,2,0], [2,0,1], [2,1,0]}"
proof -
  obtain x y z where p: "p = [x, y, z]"
    using assms(2) by (auto simp: numeral_3_eq_3 length_Suc_conv)
  have "card (set p) = length p"
    using assms by simp
  then have "distinct p"
    by (rule card_distinct)
  then have d: "x \<noteq> y" "x \<noteq> z" "y \<noteq> z"
    unfolding p by auto
  have "x \<in> set p" "y \<in> set p" "z \<in> set p"
    unfolding p by simp_all
  then have "x \<in> {0,1,2}" "y \<in> {0,1,2}" "z \<in> {0,1,2}"
    unfolding assms(1) .
  then have "x = 0 \<or> x = 1 \<or> x = 2" "y = 0 \<or> y = 1 \<or> y = 2" "z = 0 \<or> z = 1 \<or> z = 2"
    by simp_all
  with d show ?thesis unfolding p by (elim disjE) simp_all
qed

lemma overlaps_entry:
  assumes "wf_label_matrix L" "L_shape L = (n, m)" "i < m" "j < m" "l < m"
    and "kl = self_k self + 1 - self_k_0 self" "a < kl" "b < kl" "c < kl"
  shows "get_overlaps_tensor self L ! i ! j ! l ! a ! b ! c =
         to_float32 (np_true_divide (overlap_count (self_k_0 self) L i j l a b c) n)"
  using assms by (simp add: overlaps_slice)

lemma overlap_count_sym:
  "overlap_count k0 L i j l a b c = overlap_count k0 L i l j a c b"
  "overlap_count k0 L i j l a b c = overlap_count k0 L j i l b a c"
  "overlap_count k0 L i j l a b c = overlap_count k0 L j l i b c a"
  "overlap_count k0 L i j l a b c = overlap_count k0 L l i j c a b"
  "overlap_count k0 L i j l a b c = overlap_count k0 L l j i c b a"
  by (simp_all add: overlap_count_def mult_ac)

text \<open>
  Claim C2, as amended. For every valid label matrix with at least one row (\<open>n \<ge> 1\<close>) and
  every source triple \<open>(i, j, l)\<close>: every entry of \<open>_get_overlaps_tensor(L)\<close> is the
  single-precision value of the double-precision quotient of a count by \<open>n\<close> and lies in
  \<open>[0, 1]\<close>; the counts over all value triples sum to \<open>n\<close>; and the stored entries over all
  value triples sum to 1 within \<open>kl\<^sup>3 / 2\<^sup>2\<^sup>3\<close>. Here \<open>kl\<close> is the number of emitted values,
  the length of \<open>range(k_0, k + 1)\<close>.
\<close>

theorem overlaps_tensor_distribution:
  assumes valid: "valid_label_matrix self L"
    and shp: "L_shape L = (n, m)"
    and rows: "0 < n"
    and src: "i < m" "j < m" "l < m"
    and kl: "kl = self_k self + 1 - self_k_0 self"
  shows "(\<forall>a<kl. \<forall>b<kl. \<forall>c<kl.
            get_overlaps_tensor self L ! i ! j ! l ! a ! b ! c =
              to_float32 (np_true_divide (overlap_count (self_k_0 self) L i j l a b c) n) \<and>
            in_unit_interval (get_overlaps_tensor self L ! i ! j ! l ! a ! b ! c)) \<and>
         (\<Sum>a<kl. \<Sum>b<kl. \<Sum>c<kl. overlap_count (self_k_0 self) L i j l a b c) = int n \<and>
         (\<exists>s. np_sum (concat (concat (get_overlaps_tensor self L ! i ! j ! l))) = Finite s \<and>
              \<bar>s - 1\<bar> \<le> real (kl ^ 3) / 2 ^ 23)"
proof -
  let ?k0 = "self_k_0 self"
  let ?x = "\<lambda>a b c. real_of_int (overlap_count ?k0 L i j l a b c) / real n"
  define g where "g a b c =
    the (the_finite (to_float32 (np_true_divide (overlap_count ?k0 L i j l a b c) n)))" for a b c
  have wf: "wf_label_matrix L"
    using valid by (simp add: valid_label_matrix_def)
  have st: "to_float32 (np_true_divide (overlap_count ?k0 L i j l a b c) n) = Finite (g a b c) \<and>
      0 \<le> g a b c \<and> g a b c \<le> 1 \<and> \<bar>g a b c - ?x a b c\<bar> \<le> 1 / 2 ^ 23" for a b c
  proof -
    have "0 \<le> overlap_count ?k0 L i j l a b c" "overlap_count ?k0 L i j l a b c \<le> int n"
      using overlap_count_nonneg [of ?k0 L i j l a b c] overlap_count_le [of ?k0 L i j l a b c] shp
      by simp_all
    from stored_rate [OF this rows] obtain y where
      y: "to_float32 (np_true_divide (overlap_count ?k0 L i j l a b c) n) = Finite y"
        "0 \<le> y" "y \<le> 1" "\<bar>y - ?x a b c\<bar> \<le> 1 / 2 ^ 23"
      by blast
    then show ?thesis
      by (simp add: g_def)
  qed
  have slice: "get_overlaps_tensor self L ! i ! j ! l =
      tab kl (\<lambda>a. tab kl (\<lambda>b. tab kl (\<lambda>c. Finite (g a b c))))"
    unfolding overlaps_slice [OF wf shp src kl] by (intro tab_cong) (simp add: st)
  have total: "(\<Sum>a<kl. \<Sum>b<kl. \<Sum>c<kl. overlap_count ?k0 L i j l a b c) = int n"
    by (rule overlap_count_total [OF valid shp src kl])
  have "(\<Sum>a<kl. \<Sum>b<kl. \<Sum>c<kl. ?x a b c) =
        real_of_int (\<Sum>a<kl. \<Sum>b<kl. \<Sum>c<kl. overlap_count ?k0 L i j l a b c) / real n"
    by (simp add: sum_divide_distrib)
  also have "\<dots> = 1"
    using rows by (simp add: total)
  finally have one: "(\<Sum>a<kl. \<Sum>b<kl. \<Sum>c<kl. ?x a b c) = 1" .
  have "(\<Sum>a<kl. \<Sum>b<kl. \<Sum>c<kl. g a b c) - 1 =
        (\<Sum>a<kl. \<Sum>b<kl. \<Sum>c<kl. g a b c) - (\<Sum>a<kl. \<Sum>b<kl. \<Sum>c<kl. ?x a b c)"
    by (simp only: one)
  also have "\<dots> = (\<Sum>a<kl. \<Sum>b<kl. \<Sum>c<kl. g a b c - ?x a b c)"
    by (simp only: sum_subtractf)
  finally have "\<bar>(\<Sum>a<kl. \<Sum>b<kl. \<Sum>c<kl. g a b c) - 1\<bar> \<le> real (kl * kl * kl) * (1 / 2 ^ 23)"
    using sum3_abs_bound [of kl kl kl "\<lambda>a b c. g a b c - ?x a b c" "1 / 2 ^ 23"] st by simp
  then have close: "\<bar>(\<Sum>a<kl. \<Sum>b<kl. \<Sum>c<kl. g a b c) - 1\<bar> \<le> real (kl ^ 3) / 2 ^ 23"
    by (simp add: power3_eq_cube)
  have sum: "np_sum (concat (concat (get_overlaps_tensor self L ! i ! j ! l))) =
      Finite (\<Sum>a<kl. \<Sum>b<kl. \<Sum>c<kl. g a b c)"
    unfolding slice concat_tab_Finite np_sum_Finite sum_list_concat_tab ..
  have entries: "\<forall>a<kl. \<forall>b<kl. \<forall>c<kl.
      get_overlaps_tensor self L ! i ! j ! l ! a ! b ! c =
        to_float32 (np_true_divide (overlap_count ?k0 L i j l a b c) n) \<and>
      in_unit_interval (get_overlaps_tensor self L ! i ! j ! l ! a ! b ! c)"
    unfolding slice using st by simp
  show ?thesis
    using entries total sum close by blast
qed

theorem overlaps_tensor_distribution_witness:
  "valid_label_matrix (init 2 False ()) \<lparr>L_shape = (3, 1), L_rows = [[1], [2], [1]]\<rparr> \<and>
   get_overlaps_tensor (init 2 False ()) \<lparr>L_shape = (3, 1), L_rows = [[1], [2], [1]]\<rparr>
     ! 0 ! 0 ! 0 ! 1 ! 1 ! 1 =
   to_float32 (np_true_divide
     (overlap_count 1 \<lparr>L_shape = (3, 1), L_rows = [[1], [2], [1]]\<rparr> 0 0 0 1 1 1) 3) \<and>
   in_unit_interval
     (get_overlaps_tensor (init 2 False ()) \<lparr>L_shape = (3, 1), L_rows = [[1], [2], [1]]\<rparr>
        ! 0 ! 0 ! 0 ! 1 ! 1 ! 1) \<and>
   (\<exists>s. np_sum (concat (concat
          (get_overlaps_tensor (init 2 False ()) \<lparr>L_shape = (3, 1), L_rows = [[1], [2], [1]]\<rparr>
             ! 0 ! 0 ! 0))) = Finite s \<and>
        \<bar>s - 1\<bar> \<le> 8 / 2 ^ 23)"
proof -
  let ?L = "\<lparr>L_shape = (3, 1), L_rows = [[1], [2], [1]]\<rparr>"
  have valid: "valid_label_matrix (init 2 False ()) ?L"
    by (simp add: valid_label_matrix_def wf_label_matrix_def init_def)
  have shp: "L_shape ?L = (3, 1)"
    by simp
  have kl: "2 = self_k (init 2 False ()) + 1 - self_k_0 (init 2 False ())"
    by (simp add: init_def)
  have k0: "self_k_0 (init 2 False ()) = 1"
    by (simp add: init_def)
  have rows: "0 < (3::nat)" and src: "0 < (1::nat)" and val: "(1::nat) < 2"
    by simp_all
  note t = overlaps_tensor_distribution [OF valid shp rows src src src kl, unfolded k0]
  note e = t [THEN conjunct1, rule_format, OF val val val]
  have s: "\<exists>s. np_sum (concat (concat (get_overlaps_tensor (init 2 False ()) ?L ! 0 ! 0 ! 0))) =
               Finite s \<and> \<bar>s - 1\<bar> \<le> 8 / 2 ^ 23"
    using t [THEN conjunct2, THEN conjunct2] by simp
  show ?thesis
    by (intro conjI) (rule valid, rule e [THEN conjunct1], rule e [THEN conjunct2], rule s)
qed

text \<open>
  Claim C2 as stated fails in two ways. On a label matrix with no rows (the matrix of
  shape \<open>(0, 1)\<close> is valid) every count is 0 and is divided by \<open>n = 0\<close>, so every entry is
  NaN. On the matrix with the three rows \<open>[1]\<close>, \<open>[2]\<close>, \<open>[1]\<close> (with \<open>k = 2\<close> and no abstains)
  the block of the one source triple stores the single-precision values of \<open>2/3\<close> and
  \<open>1/3\<close>, which are \<open>11184811 / 2\<^sup>2\<^sup>4\<close> and \<open>11184811 / 2\<^sup>2\<^sup>5\<close>: their sum is \<open>1 + 2\<^sup>-\<^sup>2\<^sup>5\<close>.
\<close>

theorem overlaps_tensor_counterexample:
  "valid_label_matrix (init 2 True ()) \<lparr>L_shape = (0, 1), L_rows = []\<rparr> \<and>
   get_overlaps_tensor (init 2 True ()) \<lparr>L_shape = (0, 1), L_rows = []\<rparr>
     ! 0 ! 0 ! 0 ! 0 ! 0 ! 0 = NaN \<and>
   \<not> in_unit_interval
     (get_overlaps_tensor (init 2 True ()) \<lparr>L_shape = (0, 1), L_rows = []\<rparr>
        ! 0 ! 0 ! 0 ! 0 ! 0 ! 0) \<and>
   valid_label_matrix (init 2 False ()) \<lparr>L_shape = (3, 1), L_rows = [[1], [2], [1]]\<rparr> \<and>
   get_overlaps_tensor (init 2 False ()) \<lparr>L_shape = (3, 1), L_rows = [[1], [2], [1]]\<rparr> ! 0 ! 0 ! 0 =
     [[[Finite (11184811 / 16777216), Finite 0], [Finite 0, Finite 0]],
      [[Finite 0, Finite 0], [Finite 0, Finite (11184811 / 33554432)]]] \<and>
   np_sum (concat (concat
     (get_overlaps_tensor (init 2 False ()) \<lparr>L_shape = (3, 1), L_rows = [[1], [2], [1]]\<rparr>
        ! 0 ! 0 ! 0))) = Finite (33554433 / 33554432) \<and>
   np_sum (concat (concat
     (get_overlaps_tensor (init 2 False ()) \<lparr>L_shape = (3, 1), L_rows = [[1], [2], [1]]\<rparr>
        ! 0 ! 0 ! 0))) \<noteq> Finite 1"
proof -
  let ?E = "\<lparr>L_shape = (0, 1), L_rows = []\<rparr>"
  let ?L = "\<lparr>L_shape = (3, 1), L_rows = [[1], [2], [1]]\<rparr>"
  have wfE: "wf_label_matrix ?E" and wfL: "wf_label_matrix ?L"
    by (simp_all add: wf_label_matrix_def)
  have validE: "valid_label_matrix (init 2 True ()) ?E"
    by (simp add: valid_label_matrix_def wf_label_matrix_def)
  have validL: "valid_label_matrix (init 2 False ()) ?L"
    by (simp add: valid_label_matrix_def wf_label_matrix_def init_def)
  have "get_overlaps_tensor (init 2 True ()) ?E ! 0 ! 0 ! 0 ! 0 ! 0 ! 0 =
      to_float32 (np_true_divide (overlap_count (self_k_0 (init 2 True ())) ?E 0 0 0 0 0 0) 0)"
    by (rule overlaps_entry [OF wfE, where m = 1 and kl = 3]) (simp_all add: init_def)
  then have nan: "get_overlaps_tensor (init 2 True ()) ?E ! 0 ! 0 ! 0 ! 0 ! 0 ! 0 = NaN"
    by (simp add: overlap_count_def np_true_divide_def)
  have up: "[0..<3] = [0, 1, 2]" "[0..<2] = [0, 1]"
    by (simp_all add: upt_rec)
  have "get_overlaps_tensor (init 2 False ()) ?L ! 0 ! 0 ! 0 =
      tab 2 (\<lambda>a. tab 2 (\<lambda>b. tab 2 (\<lambda>c.
        to_float32 (np_true_divide (overlap_count (self_k_0 (init 2 False ())) ?L 0 0 0 a b c) 3))))"
    by (rule overlaps_slice [OF wfL, where m = 1]) (simp_all add: init_def)
  then have block: "get_overlaps_tensor (init 2 False ()) ?L ! 0 ! 0 ! 0 =
      [[[Finite (11184811 / 16777216), Finite 0], [Finite 0, Finite 0]],
       [[Finite 0, Finite 0], [Finite 0, Finite (11184811 / 33554432)]]]"
    by (simp add: tab_def up init_def overlap_count_def emits_def
          stored_two_thirds stored_one_third stored_zero)
  have sum: "np_sum (concat (concat (get_overlaps_tensor (init 2 False ()) ?L ! 0 ! 0 ! 0))) =
      Finite (33554433 / 33554432)"
    unfolding block by (simp add: np_sum_def)
  show ?thesis
    using validE validL nan block sum by simp
qed

text \<open>
  Claim C6. The overlaps tensor is invariant under any joint permutation of its three
  (source, value) axis pairs: for sources \<open>i, j, l\<close>, values \<open>a, b, c\<close> (as indices into
  \<open>range(k_0, k + 1)\<close>) and every permutation \<open>p\<close> of the positions \<open>0, 1, 2\<close>, the entry at
  the permuted sources and permuted values is the entry at \<open>(i, j, l, a, b, c)\<close>.
\<close>

theorem overlaps_tensor_symmetric:
  assumes wf: "wf_label_matrix L"
    and shp: "L_shape L = (n, m)"
    and src: "i < m" "j < m" "l < m"
    and val: "a < self_k self + 1 - self_k_0 self" "b < self_k self + 1 - self_k_0 self"
      "c < self_k self + 1 - self_k_0 self"
    and perm: "set p = {0, 1, 2}" "length p = 3"
  shows "at6 (get_overlaps_tensor self L) (map (\<lambda>t. [i, j, l] ! t) p) (map (\<lambda>t. [a, b, c] ! t) p) =
         at6 (get_overlaps_tensor self L) [i, j, l] [a, b, c]"
proof -
  note e = overlaps_entry [OF wf shp _ _ _ refl]
  from perm3_cases [OF perm]
  consider "p = [0,1,2]" | "p = [0,2,1]" | "p = [1,0,2]" | "p = [1,2,0]" | "p = [2,0,1]" | "p = [2,1,0]"
    by auto
  then show ?thesis
  proof cases
    case 1 then show ?thesis by simp
  next
    case 2 then show ?thesis
      using src val overlap_count_sym(1) [of "self_k_0 self" L i j l a b c] by (simp add: at6_def e)
  next
    case 3 then show ?thesis
      using src val overlap_count_sym(2) [of "self_k_0 self" L i j l a b c] by (simp add: at6_def e)
  next
    case 4 then show ?thesis
      using src val overlap_count_sym(3) [of "self_k_0 self" L i j l a b c] by (simp add: at6_def e)
  next
    case 5 then show ?thesis
      using src val overlap_count_sym(4) [of "self_k_0 self" L i j l a b c] by (simp add: at6_def e)
  next
    case 6 then show ?thesis
      using src val overlap_count_sym(5) [of "self_k_0 self" L i j l a b c] by (simp add: at6_def e)
  qed
qed

theorem overlaps_tensor_symmetric_witness:
  "wf_label_matrix \<lparr>L_shape = (2, 3), L_rows = [[1, 2, 0], [1, 1, 2]]\<rparr> \<and>
   set [2, 0, 1] = {0, 1, 2::nat} \<and>
   at6 (get_overlaps_tensor (init 2 True ()) \<lparr>L_shape = (2, 3), L_rows = [[1, 2, 0], [1, 1, 2]]\<rparr>)
     [2, 0, 1] [0, 1, 2] =
   at6 (get_overlaps_tensor (init 2 True ()) \<lparr>L_shape = (2, 3), L_rows = [[1, 2, 0], [1, 1, 2]]\<rparr>)
     [0, 1, 2] [1, 2, 0]"
proof -
  let ?L = "\<lparr>L_shape = (2, 3), L_rows = [[1, 2, 0], [1, 1, 2]]\<rparr>"
  have wf: "wf_label_matrix ?L"
    by (simp add: wf_label_matrix_def)
  have shp: "L_shape ?L = (2, 3)"
    by simp
  have perm: "set [2, 0, 1] = {0, 1, 2::nat}" "length [2, 0, 1::nat] = 3"
    by auto
  have val: "1 < self_k (init 2 True ()) + 1 - self_k_0 (init 2 True ())"
    "2 < self_k (init 2 True ()) + 1 - self_k_0 (init 2 True ())"
    "0 < self_k (init 2 True ()) + 1 - self_k_0 (init 2 True ())"
    by (simp_all add: init_def)
  show ?thesis
    using overlaps_tensor_symmetric [OF wf shp _ _ _ val perm, of 0 1 2] wf perm(1) by simp
qed

section \<open>Properties of the validity mask\<close>

lemma nth_update_at:
  "j < length xs \<Longrightarrow> (xs[i := f (xs ! i)]) ! j = (if j = i then f (xs ! j) else xs ! j)"
  by (cases "i < length xs") auto

lemma assign_zero_row:
  assumes "i' < length M"
  shows "assign_zero M i j k ! i' =
     (if i' = i then (M ! i')[j := (M ! i' ! j)[k := map (map (map (\<lambda>_. 0))) (M ! i' ! j ! k)]]
      else M ! i')"
  unfolding assign_zero_def
  using nth_update_at [OF assms, of i "\<lambda>r. r[j := (r ! j)[k := map (map (map (\<lambda>_. 0))) (r ! j ! k)]]"]
  by simp

lemma assign_zero_col:
  assumes "i' < length M" "j' < length (M ! i')"
  shows "assign_zero M i j k ! i' ! j' =
     (if i' = i \<and> j' = j then (M ! i' ! j')[k := map (map (map (\<lambda>_. 0))) (M ! i' ! j' ! k)]
      else M ! i' ! j')"
  using nth_update_at [OF assms(2), of j "\<lambda>c. c[k := map (map (map (\<lambda>_. 0))) (c ! k)]"]
  by (auto simp add: assign_zero_row [OF assms(1)])

lemma assign_zero_lengths:
  "length (assign_zero M i j k) = length M"
  "i' < length M \<Longrightarrow> length (assign_zero M i j k ! i') = length (M ! i')"
  "i' < length M \<Longrightarrow> j' < length (M ! i') \<Longrightarrow>
     length (assign_zero M i j k ! i' ! j') = length (M ! i' ! j')"
  by (simp add: assign_zero_def, simp add: assign_zero_row, simp add: assign_zero_col)

lemma assign_zero_outer3: "outer3 m M \<Longrightarrow> outer3 m (assign_zero M i j k)"
  unfolding outer3_def by (simp add: assign_zero_lengths)

lemma assign_zero_nth:
  assumes "outer3 m M" "i' < m" "j' < m" "k' < m"
  shows "assign_zero M i j k ! i' ! j' ! k' =
         (if (i', j', k') = (i, j, k) then map (map (map (\<lambda>_. 0))) (M ! i ! j ! k)
          else M ! i' ! j' ! k')"
proof -
  have len: "i' < length M" "j' < length (M ! i')" "k' < length (M ! i' ! j')"
    using assms by (simp_all add: outer3_def)
  show ?thesis
    using nth_update_at [OF len(3), of k "map (map (map (\<lambda>_. 0)))"]
    by (auto simp: assign_zero_col [OF len(1,2)])
qed

lemma card3_less: "card (set [i, j, k]) < 3 \<longleftrightarrow> \<not> (i \<noteq> j \<and> j \<noteq> k \<and> i \<noteq> k)"
proof -
  have "card (set [i, j, k]) \<le> length [i, j, k]"
    by (rule card_length)
  moreover have "card (set [i, j, k]) = length [i, j, k] \<longleftrightarrow> distinct [i, j, k]"
    using card_distinct distinct_card by blast
  ultimately show ?thesis by auto
qed

lemma mask_loop:
  assumes "outer3 m M" "i < m" "j < m" "l < m"
  shows "fold (\<lambda>(i, j, k). \<lambda>msk. if card (set [i, j, k]) < 3 then assign_zero msk i j k else msk) ts M
           ! i ! j ! l =
         (if (i, j, l) \<in> set ts \<and> card (set [i, j, l]) < 3
          then map (map (map (\<lambda>_. 0))) (M ! i ! j ! l) else M ! i ! j ! l)"
  using assms
proof (induction ts arbitrary: M)
  case Nil
  then show ?case by simp
next
  case (Cons t ts)
  obtain i' j' k' where t: "t = (i', j', k')"
    by (cases t) auto
  let ?M' = "if card (set [i', j', k']) < 3 then assign_zero M i' j' k' else M"
  have o: "outer3 m ?M'"
    using Cons.prems(1) by (simp add: assign_zero_outer3)
  have n: "?M' ! i ! j ! l =
      (if (i, j, l) = (i', j', k') \<and> card (set [i', j', k']) < 3
       then map (map (map (\<lambda>_. 0))) (M ! i ! j ! l) else M ! i ! j ! l)"
    using Cons.prems by (auto simp: assign_zero_nth)
  show ?case
    using Cons.IH [OF o Cons.prems(2-4)] n
    by (auto simp: t comp_def)
qed

lemma mask_loop_outer3:
  "outer3 m M \<Longrightarrow>
   outer3 m (fold (\<lambda>(i, j, k). \<lambda>msk. if card (set [i, j, k]) < 3 then assign_zero msk i j k else msk) ts M)"
  by (induction ts arbitrary: M) (auto simp: assign_zero_outer3)

lemma torch_ones_outer3: "outer3 m (torch_ones (m, m, m, a, b, c))"
  by (simp add: outer3_def torch_ones_def)

lemma torch_ones_nth:
  "i < m \<Longrightarrow> j < m \<Longrightarrow> l < m \<Longrightarrow>
   torch_ones (m, m, m, a, b, c) ! i ! j ! l = replicate a (replicate b (replicate c 1))"
  by (simp add: torch_ones_def)

lemma get_mask_outer3: "outer3 m (get_mask self m)"
  unfolding get_mask_def by (intro mask_loop_outer3 torch_ones_outer3)

lemma get_mask_block:
  assumes "i < m" "j < m" "l < m"
  shows "get_mask self m ! i ! j ! l =
         replicate (self_k_lf self) (replicate (self_k_lf self) (replicate (self_k_lf self)
           (if i \<noteq> j \<and> j \<noteq> l \<and> i \<noteq> l then 1 else 0)))"
proof -
  have mem: "(i, j, l) \<in> set (List.product [0..<m] (List.product [0..<m] [0..<m]))"
    using assms by simp
  have "get_mask self m ! i ! j ! l =
      (if (i, j, l) \<in> set (List.product [0..<m] (List.product [0..<m] [0..<m])) \<and>
          card (set [i, j, l]) < 3
       then map (map (map (\<lambda>_. 0)))
              (torch_ones (m, m, m, self_k_lf self, self_k_lf self, self_k_lf self) ! i ! j ! l)
       else torch_ones (m, m, m, self_k_lf self, self_k_lf self, self_k_lf self) ! i ! j ! l)"
    unfolding get_mask_def by (rule mask_loop [OF torch_ones_outer3 assms])
  then show ?thesis
    unfolding card3_less torch_ones_nth [OF assms] using mem by simp
qed

lemma has_shape6_outer3:
  assumes "outer3 m M"
    and "\<And>i j l. i < m \<Longrightarrow> j < m \<Longrightarrow> l < m \<Longrightarrow>
           \<exists>v. M ! i ! j ! l = replicate a (replicate b (replicate c v))"
  shows "has_shape6 (m, m, m, a, b, c) M"
proof -
  have "axis a (axis b (axis c (\<lambda>_. True))) (M ! i ! j ! l)" if h: "i < m" "j < m" "l < m" for i j l
  proof -
    obtain v where "M ! i ! j ! l = replicate a (replicate b (replicate c v))"
      using assms(2) [OF h] by blast
    then show ?thesis
      by (simp add: axis_def list_all_length)
  qed
  then show ?thesis
    using assms(1) by (simp add: has_shape6_def axis_def list_all_length outer3_def)
qed

text \<open>
  Claim C7. For every number of sources \<open>m\<close>, \<open>get_mask(m)\<close> has shape
  \<open>(m, m, m, k_lf, k_lf, k_lf)\<close>, and its block at a source triple \<open>(i, j, l)\<close> is constant:
  all ones when \<open>i, j, l\<close> are pairwise distinct, all zeros when two of them coincide.
\<close>

theorem get_mask_spec:
  "has_shape6 (m, m, m, self_k_lf self, self_k_lf self, self_k_lf self) (get_mask self m) \<and>
   (\<forall>i<m. \<forall>j<m. \<forall>l<m.
      get_mask self m ! i ! j ! l =
        replicate (self_k_lf self) (replicate (self_k_lf self) (replicate (self_k_lf self)
          (if i \<noteq> j \<and> j \<noteq> l \<and> i \<noteq> l then 1 else 0))))"
proof -
  have "has_shape6 (m, m, m, self_k_lf self, self_k_lf self, self_k_lf self) (get_mask self m)"
    by (rule has_shape6_outer3 [OF get_mask_outer3]) (simp add: get_mask_block)
  then show ?thesis
    by (simp add: get_mask_block)
qed

theorem get_mask_spec_witness:
  "get_mask (init 2 False ()) 3 ! 0 ! 1 ! 2 = [[[1, 1], [1, 1]], [[1, 1], [1, 1]]] \<and>
   get_mask (init 2 False ()) 3 ! 0 ! 2 ! 0 = [[[0, 0], [0, 0]], [[0, 0], [0, 0]]] \<and>
   get_mask (init 2 False ()) 3 ! 2 ! 2 ! 1 = [[[0, 0], [0, 0]], [[0, 0], [0, 0]]] \<and>
   length (get_mask (init 2 False ()) 3) = 3"
  using get_mask_spec [of 3 "init 2 False ()"]
  by (simp add: init_def has_shape6_def axis_def numeral_2_eq_2)

section \<open>Properties of the loss\<close>

lemma round_to_format_of_int:
  assumes "\<bar>n\<bar> < 2 ^ p" "0 < p" "emin \<le> 0"
  shows "round_to_format p emin (of_int n) = of_int n"
proof (cases "n = 0")
  case True
  then show ?thesis by (simp add: round_to_format_def)
next
  case False
  define x :: real where "x = \<bar>of_int n\<bar>"
  define e where "e = \<lfloor>log 2 x\<rfloor>"
  define N where "N = nat (int p - 1 - e)"
  have x1: "1 \<le> x"
    using False by (simp add: x_def flip: of_int_abs)
  then have "0 \<le> log 2 x"
    by simp
  then have e0: "0 \<le> e"
    by (simp add: e_def)
  have "x < 2 ^ p"
    using assms(1) unfolding x_def of_int_abs [symmetric] by (metis of_int_less_iff of_int_numeral of_int_power)
  then have "x < 2 powr (real p)"
    by (simp add: powr_realpow)
  then have "log 2 x < real p"
    using x1 by (simp add: log_less_iff)
  then have "log 2 x < of_int (int p)"
    by simp
  then have ep: "e < int p"
    unfolding e_def by (simp only: floor_less_iff)
  have "emin \<le> e"
    using e0 assms(3) by simp
  then have b: "binade emin (of_int n) = e"
    unfolding binade_def e_def x_def by (simp only: max_absorb1)
  have ulp: "(2::real) powi (e - int p + 1) = 1 / 2 ^ N"
  proof (cases "e - int p + 1 = 0")
    case True
    then show ?thesis by (simp add: N_def)
  next
    case False
    with ep have "e - int p + 1 < 0" by simp
    then show ?thesis
      by (simp add: power_int_def N_def field_simps)
  qed
  have "\<bar>real_of_int n\<bar> * 2 ^ N = of_int (\<bar>n\<bar> * 2 ^ N)"
    by simp
  then have r: "rne (\<bar>real_of_int n\<bar> * 2 ^ N) = \<bar>n\<bar> * 2 ^ N"
    by (simp only: rne_of_int)
  have "round_to_format p emin (of_int n) = sgn (of_int n) * of_int (\<bar>n\<bar> * 2 ^ N) * (1 / 2 ^ N)"
    using False by (simp add: round_to_format_def b ulp Let_def r)
  also have "\<dots> = sgn (of_int n) * \<bar>of_int n\<bar>"
    by simp
  also have "\<dots> = of_int n"
    by (simp add: sgn_mult_abs)
  finally show ?thesis .
qed

lemma single_numeral [simp]:
  "numeral w < (2::int) ^ 24 \<Longrightarrow> single (numeral w) = numeral w"
  "numeral w < (2::int) ^ 24 \<Longrightarrow> single (- numeral w) = - numeral w"
  "single 0 = 0" "single 1 = 1"
  using round_to_format_of_int [of "numeral w" 24 "- 126"]
    round_to_format_of_int [of "- numeral w" 24 "- 126"]
    round_to_format_of_int [of 1 24 "- 126"]
  by (simp_all add: single_def round_to_format_def)

lemma axis_tab: "axis n P xs \<Longrightarrow> xs = tab n (\<lambda>i. xs ! i)"
  by (auto simp: axis_def tab_def intro: nth_equalityI)

lemma axis_nth: "axis n P xs \<Longrightarrow> i < n \<Longrightarrow> P (xs ! i)"
  by (simp add: axis_def list_all_length)

lemma axis_tabI:
  assumes "axis n P xs" "\<And>i. i < n \<Longrightarrow> P (xs ! i) \<Longrightarrow> xs ! i = f i"
  shows "xs = tab n f"
proof -
  have "xs = tab n (\<lambda>i. xs ! i)"
    using assms(1) by (rule axis_tab)
  also have "\<dots> = tab n f"
    by (intro tab_cong assms(2) axis_nth [OF assms(1)])
  finally show ?thesis .
qed

lemma has_shape6_tab:
  assumes "has_shape6 (d0, d1, d2, d3, d4, d5) T"
  shows "T = tab d0 (\<lambda>i. tab d1 (\<lambda>j. tab d2 (\<lambda>l. tab d3 (\<lambda>a. tab d4 (\<lambda>b. tab d5 (\<lambda>c.
           T ! i ! j ! l ! a ! b ! c))))))"
proof -
  have 0: "axis d0 (axis d1 (axis d2 (axis d3 (axis d4 (axis d5 (\<lambda>_. True)))))) T"
    using assms by (simp add: has_shape6_def)
  show ?thesis
    by (rule axis_tabI [OF 0], (erule axis_tabI)+, rule refl)
qed

lemma has_shape3_tab:
  assumes "has_shape3 (d0, d1, d2) T"
  shows "T = tab d0 (\<lambda>i. tab d1 (\<lambda>v. tab d2 (\<lambda>y. T ! i ! v ! y)))"
proof -
  have 0: "axis d0 (axis d1 (axis d2 (\<lambda>_. True))) T"
    using assms by (simp add: has_shape3_def)
  show ?thesis
    by (rule axis_tabI [OF 0], (erule axis_tabI)+, rule refl)
qed

lemma has_shape3_row:
  assumes "has_shape3 (d0, d1, d2) T" "i < d0" "v < d1"
  shows "length (T ! i ! v) = d2"
  using assms by (simp add: has_shape3_def axis_def list_all_length)

lemma zip_tab: "zip (tab n g) (tab n h) = tab n (\<lambda>i. (g i, h i))"
  by (simp add: tab_def zip_map_map zip_same_conv_map)

lemma map2_tab: "map2 f (tab n g) (tab n h) = tab n (\<lambda>i. f (g i) (h i))"
  by (simp add: zip_tab map_tab)

lemma sum_list_upt: "(\<Sum>i\<leftarrow>[0..<n]. f i) = (\<Sum>i<n. f i)"
  by (simp add: interv_sum_list_conv_sum_set_nat atLeast0LessThan)

lemma select1_tab:
  "select1 (tab n x) (tab n b) = concat (tab n (\<lambda>c. if b c \<noteq> 0 then [x c] else []))"
proof -
  have gen: "map fst (filter (\<lambda>(x, b). b \<noteq> 0) (map (\<lambda>c. (x c, b c)) cs)) =
        concat (map (\<lambda>c. if b c \<noteq> 0 then [x c] else []) cs)" for cs :: "nat list"
    by (induction cs) auto
  show ?thesis
    by (simp only: select1_def zip_tab) (simp only: tab_def gen)
qed

lemma select_axis_tab:
  "select_axis f (tab n X) (tab n M) = concat (tab n (\<lambda>i. f (X i) (M i)))"
  by (simp only: select_axis_def map2_tab)

lemma masked_select_tab:
  "masked_select
     (sub6 A (tab m (\<lambda>i. tab m (\<lambda>j. tab m (\<lambda>l. tab kl (\<lambda>a. tab kl (\<lambda>b. tab kl (\<lambda>c. ov i j l a b c)))))))
             (tab m (\<lambda>i. tab m (\<lambda>j. tab m (\<lambda>l. tab kl (\<lambda>a. tab kl (\<lambda>b. tab kl (\<lambda>c. rv i j l a b c))))))))
     (tab m (\<lambda>i. tab m (\<lambda>j. tab m (\<lambda>l. tab kl (\<lambda>a. tab kl (\<lambda>b. tab kl (\<lambda>c. mv i j l a b c))))))) =
   concat (tab m (\<lambda>i. concat (tab m (\<lambda>j. concat (tab m (\<lambda>l.
     concat (tab kl (\<lambda>a. concat (tab kl (\<lambda>b. concat (tab kl (\<lambda>c.
       if mv i j l a b c \<noteq> 0 then [fl_sub A (ov i j l a b c) (rv i j l a b c)] else []))))))))))))"
  by (simp only: sub6_def masked_select_def map2_tab select_axis_tab select1_tab)

lemma einsum_shape3:
  assumes "has_shape3 (m, kl, k) Q"
  shows "einsum_aby_cdy_efy_acebdf A (shape3 Q) X Y Z = einsum_aby_cdy_efy_acebdf A (m, kl, k) X Y Z"
proof -
  have 0: "axis m (axis kl (axis k (\<lambda>_. True))) Q"
    using assms by (simp add: has_shape3_def)
  show ?thesis
  proof (cases Q)
    case Nil
    then have "m = 0" using 0 by (simp add: axis_def)
    with Nil show ?thesis
      by (simp add: shape3_def einsum_aby_cdy_efy_acebdf_def tab_def)
  next
    case (Cons r rs)
    then have m: "length Q = m" and r: "axis kl (axis k (\<lambda>_. True)) r"
      using 0 by (simp_all add: axis_def)
    show ?thesis
    proof (cases r)
      case Nil
      then have "kl = 0" using r by (simp add: axis_def)
      with Nil Cons m show ?thesis
        by (simp add: shape3_def einsum_aby_cdy_efy_acebdf_def tab_def)
    next
      case (Cons c cs)
      then have "length r = kl" "length c = k"
        using r by (simp_all add: axis_def)
      with Cons \<open>Q = r # rs\<close> m show ?thesis
        by (simp add: shape3_def)
    qed
  qed
qed

text \<open>The differences that \<open>get_loss\<close> selects are the residuals at the mask's true entries.\<close>

lemma selected_residuals:
  assumes O_shape: "has_shape6 (m, m, m, kl, kl, kl) Ot"
    and Q_shape: "has_shape3 (m, kl, k) Q"
    and mask_shape: "has_shape6 (m, m, m, kl, kl, kl) msk"
  shows "masked_select (sub6 A Ot (einsum_aby_cdy_efy_acebdf A (shape3 Q) Q Q Q)) msk =
         masked_residuals A (m, kl, k) Ot Q msk"
proof -
  let ?R = "einsum_aby_cdy_efy_acebdf A (m, kl, k) Q Q Q"
  have R: "?R = tab m (\<lambda>i. tab m (\<lambda>j. tab m (\<lambda>l. tab kl (\<lambda>a. tab kl (\<lambda>b. tab kl (\<lambda>c.
      fl_einsum A (Q ! i ! a) (Q ! j ! b) (Q ! l ! c)))))))"
    by (simp add: einsum_aby_cdy_efy_acebdf_def)
  show ?thesis
    unfolding einsum_shape3 [OF Q_shape] R masked_residuals_def prod.case
    by (rule trans [OF arg_cong2 [where f = "\<lambda>X B. masked_select (sub6 A X _) B",
          OF has_shape6_tab [OF O_shape] has_shape6_tab [OF mask_shape]] masked_select_tab])
qed

lemma get_loss_residuals:
  assumes "has_shape6 (m, m, m, kl, kl, kl) Ot" "has_shape3 (m, kl, k) Q"
    "has_shape6 (m, m, m, kl, kl, kl) msk"
  shows "get_loss A Ot Q msk = fl_square A (fl_norm A (masked_residuals A (m, kl, k) Ot Q msk))"
  by (simp add: get_loss_def selected_residuals [OF assms])

lemma sumsq_concat_tab:
  "(\<Sum>x\<leftarrow>concat (tab n F). (x::real)\<^sup>2) = (\<Sum>i<n. \<Sum>x\<leftarrow>F i. x\<^sup>2)"
proof -
  have gen: "(\<Sum>x\<leftarrow>concat (map F cs). x\<^sup>2) = (\<Sum>c\<leftarrow>cs. (\<Sum>x\<leftarrow>F c. (x::real)\<^sup>2))"
    for cs :: "nat list"
    by (induction cs) auto
  show ?thesis
    by (simp only: tab_def gen sum_list_upt)
qed

lemma sumsq_residuals:
  assumes Q_shape: "has_shape3 (m, kl, k) Q"
  shows "(\<Sum>x\<leftarrow>masked_residuals exact (m, kl, k) Ot Q msk. x\<^sup>2) =
         masked_squared_residuals (m, kl, k) Ot Q msk"
proof -
  have e: "fl_einsum exact (Q ! i ! a) (Q ! j ! b) (Q ! l ! c) =
      (\<Sum>y<k. Q ! i ! a ! y * Q ! j ! b ! y * Q ! l ! c ! y)" if "i < m" "a < kl" for i a j b l c
    using has_shape3_row [OF Q_shape that] by (simp add: exact_def sum_list_upt)
  have s: "fl_sub exact x y = x - y" for x y
    by (simp add: exact_def)
  have sq: "(\<Sum>x\<leftarrow>(if msk ! i ! j ! l ! a ! b ! c \<noteq> 0
          then [fl_sub exact (Ot ! i ! j ! l ! a ! b ! c)
                  (fl_einsum exact (Q ! i ! a) (Q ! j ! b) (Q ! l ! c))]
          else []). x\<^sup>2) =
      (if msk ! i ! j ! l ! a ! b ! c \<noteq> 0
       then (Ot ! i ! j ! l ! a ! b ! c -
             (\<Sum>y<k. Q ! i ! a ! y * Q ! j ! b ! y * Q ! l ! c ! y))\<^sup>2
       else 0)" if "i < m" "a < kl" for i j l a b c
    using e [OF that, of j b l c] by (simp add: s)
  show ?thesis
    unfolding masked_residuals_def masked_squared_residuals_def prod.case sumsq_concat_tab
    by (intro sum.cong refl sq) simp_all
qed

lemma get_loss_exact:
  assumes "has_shape6 (m, m, m, kl, kl, kl) Ot" "has_shape3 (m, kl, k) Q"
    "has_shape6 (m, m, m, kl, kl, kl) msk"
  shows "get_loss exact Ot Q msk = masked_squared_residuals (m, kl, k) Ot Q msk"
proof -
  have "0 \<le> (\<Sum>x\<leftarrow>masked_residuals exact (m, kl, k) Ot Q msk. x\<^sup>2)"
    by (intro sum_list_nonneg) auto
  then show ?thesis
    unfolding get_loss_residuals [OF assms] sumsq_residuals [OF assms(2), symmetric]
    by (simp add: exact_def)
qed

lemma single_sqrt_78: "single (sqrt 78) = 2315193 / 262144"
proof -
  have lo: "18521543 / 2097152 < sqrt 78"
    by (rule real_less_rsqrt) (simp add: power2_eq_square)
  have hi: "sqrt 78 < 18521545 / 2097152"
    by (rule real_less_lsqrt) (simp_all add: power2_eq_square)
  have "round_to_format 24 (- 126) (sqrt 78) = of_int 9260772 * 2 powi (3 - int 24 + 1)"
  proof (rule round_to_format_eval)
    show "rne (sqrt 78 / 2 powi (3 - int 24 + 1)) = 9260772"
      using lo hi by (intro rne_nearest) (simp_all add: power_int_minus_divide)
  qed (use lo hi in simp_all)
  then show ?thesis
    by (simp add: single_def power_int_minus_divide)
qed

lemma single_square_sqrt_78: "single ((2315193 / 262144)\<^sup>2) = 10223615 / 131072"
proof -
  have "round_to_format 24 (- 126) ((2315193 / 262144)\<^sup>2) =
        of_int 10223615 * 2 powi (6 - int 24 + 1)"
    by (rule round_to_format_eval)
       (simp_all add: power_int_minus_divide power2_eq_square rne_nearest)
  then show ?thesis
    by (simp add: single_def power_int_minus_divide)
qed

lemma upt_small: "[0..<2] = [0, 1]" "[0..<1] = [0]" "[0..<3] = [0, 1, 2]"
  by (simp_all add: upt_rec)

lemma example_residuals:
  "masked_residuals nearest32 (2, 1, 2)
     [[[[[[1]]], [[[2]]]], [[[[0]]], [[[4]]]]], [[[[[5]]], [[[1/2]]]], [[[[7]]], [[[8]]]]]]
     [[[1, 2]], [[3, 1]]]
     [[[[[[0]]], [[[1]]]], [[[[1]]], [[[0]]]]], [[[[[1]]], [[[0]]]], [[[[0]]], [[[0]]]]]] =
   [- 5, - 7, - 2]"
  by (simp add: masked_residuals_def tab_def upt_small nearest32_def)

text \<open>
  Claim C3, as amended. For tensors \<open>O\<close> and \<open>mask\<close> of shape \<open>(m, m, m, k_lf, k_lf, k_lf)\<close>
  and \<open>Q\<close> of shape \<open>(m, k_lf, k)\<close>, \<open>get_loss(O, Q, mask)\<close> is the square of the norm of the
  vector of residuals \<open>O[i,j,l,a,b,c] - einsum(Q[i,a,:], Q[j,b,:], Q[l,c,:])\<close> at exactly
  the entries where the mask is true, each operation being the library's single-precision
  one; in arithmetic without rounding that is the sum of the squared residuals
  \<open>(O[i,j,l,a,b,c] - \<Sum>y. Q[i,a,y] * Q[j,b,y] * Q[l,c,y])\<^sup>2\<close> over these entries.
\<close>

theorem get_loss_spec:
  assumes O_shape: "has_shape6 (m, m, m, kl, kl, kl) Ot"
    and Q_shape: "has_shape3 (m, kl, k) Q"
    and mask_shape: "has_shape6 (m, m, m, kl, kl, kl) msk"
  shows "get_loss A Ot Q msk = fl_square A (fl_norm A (masked_residuals A (m, kl, k) Ot Q msk)) \<and>
         get_loss exact Ot Q msk = masked_squared_residuals (m, kl, k) Ot Q msk"
  using get_loss_residuals [OF assms] get_loss_exact [OF assms] by simp

theorem get_loss_spec_witness:
  "has_shape3 (2, 1, 2) [[[1, 2]], [[3, 1::real]]] \<and>
   get_loss nearest32
     [[[[[[1]]], [[[2]]]], [[[[0]]], [[[4]]]]], [[[[[5]]], [[[1/2]]]], [[[[7]]], [[[8]]]]]]
     [[[1, 2]], [[3, 1]]]
     [[[[[[0]]], [[[1]]]], [[[[1]]], [[[0]]]]], [[[[[1]]], [[[0]]]], [[[[0]]], [[[0]]]]]] =
   fl_square nearest32 (fl_norm nearest32 [- 5, - 7, - 2]) \<and>
   get_loss exact
     [[[[[[1]]], [[[2]]]], [[[[0]]], [[[4]]]]], [[[[[5]]], [[[1/2]]]], [[[[7]]], [[[8]]]]]]
     [[[1, 2]], [[3, 1]]]
     [[[[[[0]]], [[[1]]]], [[[[1]]], [[[0]]]]], [[[[[1]]], [[[0]]]], [[[[0]]], [[[0]]]]]] = 78"
proof -
  have O_shape: "has_shape6 (2, 2, 2, 1, 1, 1)
      [[[[[[1]]], [[[2]]]], [[[[0]]], [[[4::real]]]]], [[[[[5]]], [[[1/2]]]], [[[[7]]], [[[8]]]]]]"
    by (simp add: has_shape6_def axis_def)
  have Q_shape: "has_shape3 (2, 1, 2) [[[1, 2]], [[3, 1::real]]]"
    by (simp add: has_shape3_def axis_def)
  have mask_shape: "has_shape6 (2, 2, 2, 1, 1, 1)
      [[[[[[0]]], [[[1]]]], [[[[1]]], [[[0]]]]], [[[[[1]]], [[[0]]]], [[[[0]]], [[[0::8 word]]]]]]"
    by (simp add: has_shape6_def axis_def)
  note loss = get_loss_spec [OF O_shape Q_shape mask_shape, of nearest32]
  have single: "get_loss nearest32
      [[[[[[1]]], [[[2]]]], [[[[0]]], [[[4]]]]], [[[[[5]]], [[[1/2]]]], [[[[7]]], [[[8]]]]]]
      [[[1, 2]], [[3, 1]]]
      [[[[[[0]]], [[[1]]]], [[[[1]]], [[[0]]]]], [[[[[1]]], [[[0]]]], [[[[0]]], [[[0]]]]]] =
    fl_square nearest32 (fl_norm nearest32 [- 5, - 7, - 2])"
    using loss [THEN conjunct1] by (simp only: example_residuals)
  have reals: "get_loss exact
      [[[[[[1]]], [[[2]]]], [[[[0]]], [[[4]]]]], [[[[[5]]], [[[1/2]]]], [[[[7]]], [[[8]]]]]]
      [[[1, 2]], [[3, 1]]]
      [[[[[[0]]], [[[1]]]], [[[[1]]], [[[0]]]]], [[[[[1]]], [[[0]]]], [[[[0]]], [[[0]]]]]] = 78"
    using loss [THEN conjunct2]
    by (simp add: masked_squared_residuals_def lessThan_Suc numeral_2_eq_2)
  show ?thesis
    by (intro conjI Q_shape single reals)
qed

text \<open>
  Claim C3 as stated fails in single precision. With the residuals \<open>-5\<close>, \<open>-7\<close> and \<open>-2\<close> at
  the mask's true entries the sum of the squared residuals is 78, but \<open>torch.norm\<close> rounds
  the square root of 78 to \<open>2315193 / 2\<^sup>1\<^sup>8\<close> and the square of that is rounded to
  \<open>10223615 / 2\<^sup>1\<^sup>7 = 77.99999237060547\<close>.
\<close>

theorem get_loss_rounding_counterexample:
  "get_loss nearest32
     [[[[[[1]]], [[[2]]]], [[[[0]]], [[[4]]]]], [[[[[5]]], [[[1/2]]]], [[[[7]]], [[[8]]]]]]
     [[[1, 2]], [[3, 1]]]
     [[[[[[0]]], [[[1]]]], [[[[1]]], [[[0]]]]], [[[[[1]]], [[[0]]]], [[[[0]]], [[[0]]]]]] =
   10223615 / 131072 \<and>
   masked_squared_residuals (2, 1, 2)
     [[[[[[1]]], [[[2]]]], [[[[0]]], [[[4]]]]], [[[[[5]]], [[[1/2]]]], [[[[7]]], [[[8]]]]]]
     [[[1, 2]], [[3, 1]]]
     [[[[[[0]]], [[[1]]]], [[[[1]]], [[[0]]]]], [[[[[1]]], [[[0]]]], [[[[0]]], [[[0]]]]]] = 78 \<and>
   get_loss nearest32
     [[[[[[1]]], [[[2]]]], [[[[0]]], [[[4]]]]], [[[[[5]]], [[[1/2]]]], [[[[7]]], [[[8]]]]]]
     [[[1, 2]], [[3, 1]]]
     [[[[[[0]]], [[[1]]]], [[[[1]]], [[[0]]]]], [[[[[1]]], [[[0]]]], [[[[0]]], [[[0]]]]]] \<noteq>
   masked_squared_residuals (2, 1, 2)
     [[[[[[1]]], [[[2]]]], [[[[0]]], [[[4]]]]], [[[[[5]]], [[[1/2]]]], [[[[7]]], [[[8]]]]]]
     [[[1, 2]], [[3, 1]]]
     [[[[[[0]]], [[[1]]]], [[[[1]]], [[[0]]]]], [[[[[1]]], [[[0]]]], [[[[0]]], [[[0]]]]]]"
proof -
  let ?O = "[[[[[[1]]], [[[2]]]], [[[[0]]], [[[4::real]]]]], [[[[[5]]], [[[1/2]]]], [[[[7]]], [[[8]]]]]]"
  let ?Q = "[[[1, 2]], [[3, 1::real]]]"
  let ?M = "[[[[[[0]]], [[[1]]]], [[[[1]]], [[[0]]]]], [[[[[1]]], [[[0]]]], [[[[0]]], [[[0::8 word]]]]]]"
  have O_shape: "has_shape6 (2, 2, 2, 1, 1, 1) ?O"
    by (simp add: has_shape6_def axis_def)
  have Q_shape: "has_shape3 (2, 1, 2) ?Q"
    by (simp add: has_shape3_def axis_def)
  have mask_shape: "has_shape6 (2, 2, 2, 1, 1, 1) ?M"
    by (simp add: has_shape6_def axis_def)
  have "get_loss nearest32 ?O ?Q ?M = fl_square nearest32 (fl_norm nearest32 [- 5, - 7, - 2])"
    by (simp only: get_loss_residuals [OF O_shape Q_shape mask_shape] example_residuals)
  also have "\<dots> = single ((single (sqrt 78))\<^sup>2)"
    by (simp add: nearest32_def)
  also have "\<dots> = 10223615 / 131072"
    by (simp only: single_sqrt_78 single_square_sqrt_78)
  finally have loss: "get_loss nearest32 ?O ?Q ?M = 10223615 / 131072" .
  have sum: "masked_squared_residuals (2, 1, 2) ?O ?Q ?M = 78"
    by (simp add: masked_squared_residuals_def lessThan_Suc numeral_2_eq_2)
  show ?thesis
    unfolding loss sum by simp
qed

section \<open>Properties of the column order\<close>








end
